theory Spec2Isabelle
  imports Complex_Main "HOL-Library.Sublist" "HOL-Library.Multiset"
begin

text \<open>
  A model of the input layer of the cost-risk estimator: the CSV import parsers, the derived
  cost calculator, the validation engine, the payload builder, the sensitivity classifier and
  the event handlers of the session. The repository holds two versions of the interface
  component; the model follows the fuller one, with the three-point columns of the CBS import,
  the validation engine and the project metadata. The functions both versions hold are the
  same in both.
\<close>

section \<open>JavaScript values\<close>

text \<open>
  A JavaScript number is NaN, one of the two infinities, or a finite double. Finite doubles are
  embedded as the rationals they denote: comparisons are exact on them, the rounding of
  arithmetic results and the sign of zero are not represented, overflow to an infinity is.
\<close>

datatype jsnum = NaN | PInf | NInf | Fin rat

text \<open>
  The primitive values a field of the application state can hold: numbers, the raw strings of
  form inputs and CSV cells, \<open>null\<close> and \<open>undefined\<close>.
\<close>

datatype jsval = JUndefined | JNull | JBool bool | JNum jsnum | JStr string

fun isFinite :: "jsnum \<Rightarrow> bool" where
  "isFinite (Fin q) = True"
| "isFinite _ = False"

text \<open>
  Values at or beyond \<open>2^1024 - 2^970\<close> round to an infinity; the bound is written out as a
  literal.
\<close>

definition overflowBound :: rat where
  "overflowBound =
     179769313486231580793728971405303415079934132710037826936173778980444968292764750946649017977587207096330286416692887910946555547851940402630657488671505820681908902000708383676273854845817711531764475730270069855571366959622842914819860834936475292719074168444365510704342711559699508093042880177904174497792"

definition toDouble :: "rat \<Rightarrow> jsnum" where
  "toDouble q =
     (if overflowBound \<le> q then PInf
      else if q \<le> - overflowBound then NInf
      else Fin q)"

fun jsless :: "jsnum \<Rightarrow> jsnum \<Rightarrow> bool" where
  "jsless NaN _ = False"
| "jsless _ NaN = False"
| "jsless (Fin a) (Fin b) = (a < b)"
| "jsless (Fin a) PInf = True"
| "jsless (Fin a) NInf = False"
| "jsless NInf NInf = False"
| "jsless NInf _ = True"
| "jsless PInf _ = False"

definition jsgreater :: "jsnum \<Rightarrow> jsnum \<Rightarrow> bool" where
  "jsgreater a b = jsless b a"

definition jsle :: "jsnum \<Rightarrow> jsnum \<Rightarrow> bool" where
  "jsle a b = (a \<noteq> NaN \<and> b \<noteq> NaN \<and> (jsless a b \<or> a = b))"

definition jsge :: "jsnum \<Rightarrow> jsnum \<Rightarrow> bool" where
  "jsge a b = jsle b a"

fun jsneg :: "jsnum \<Rightarrow> jsnum" where
  "jsneg NaN = NaN"
| "jsneg PInf = NInf"
| "jsneg NInf = PInf"
| "jsneg (Fin q) = Fin (- q)"

fun jsadd :: "jsnum \<Rightarrow> jsnum \<Rightarrow> jsnum" where
  "jsadd NaN _ = NaN"
| "jsadd _ NaN = NaN"
| "jsadd (Fin a) (Fin b) = toDouble (a + b)"
| "jsadd PInf NInf = NaN"
| "jsadd NInf PInf = NaN"
| "jsadd PInf _ = PInf"
| "jsadd NInf _ = NInf"
| "jsadd (Fin a) b = b"

definition jssub :: "jsnum \<Rightarrow> jsnum \<Rightarrow> jsnum" where
  "jssub a b = jsadd a (jsneg b)"

fun jsmul :: "jsnum \<Rightarrow> jsnum \<Rightarrow> jsnum" where
  "jsmul NaN _ = NaN"
| "jsmul _ NaN = NaN"
| "jsmul (Fin a) (Fin b) = toDouble (a * b)"
| "jsmul (Fin a) PInf = (if a = 0 then NaN else if 0 < a then PInf else NInf)"
| "jsmul (Fin a) NInf = (if a = 0 then NaN else if 0 < a then NInf else PInf)"
| "jsmul PInf (Fin b) = (if b = 0 then NaN else if 0 < b then PInf else NInf)"
| "jsmul NInf (Fin b) = (if b = 0 then NaN else if 0 < b then NInf else PInf)"
| "jsmul PInf PInf = PInf"
| "jsmul NInf NInf = PInf"
| "jsmul PInf NInf = NInf"
| "jsmul NInf PInf = NInf"

subsection \<open>Strings\<close>

text \<open>
  A string is a list of code units, restricted to the range of \<^typ>\<open>char\<close>. \<open>trim\<close> removes
  the white space and line terminators of that range, \<open>toLowerCase\<close> maps the upper-case
  letters of that range.
\<close>

definition isWhite :: "char \<Rightarrow> bool" where
  "isWhite c = (of_char c \<in> {9, 10, 11, 12, 13, 32, 160 :: nat})"

definition trim :: "string \<Rightarrow> string" where
  "trim s = rev (dropWhile isWhite (rev (dropWhile isWhite s)))"

definition lowerChar :: "char \<Rightarrow> char" where
  "lowerChar c =
     (let n = of_char c :: nat in
      if (65 \<le> n \<and> n \<le> 90) \<or> (192 \<le> n \<and> n \<le> 222 \<and> n \<noteq> 215)
      then char_of (n + 32) else c)"

definition toLowerCase :: "string \<Rightarrow> string" where
  "toLowerCase s = map lowerChar s"

definition isDigit :: "char \<Rightarrow> bool" where
  "isDigit c = (48 \<le> (of_char c :: nat) \<and> (of_char c :: nat) \<le> 57)"

text \<open>The value of a digit in a radix up to 16, \<open>None\<close> for any other character.\<close>

definition digitVal :: "nat \<Rightarrow> char \<Rightarrow> nat option" where
  "digitVal radix c =
     (let n = of_char c :: nat;
          v = (if 48 \<le> n \<and> n \<le> 57 then Some (n - 48)
               else if 97 \<le> n \<and> n \<le> 102 then Some (n - 87)
               else if 65 \<le> n \<and> n \<le> 70 then Some (n - 55)
               else None)
      in case v of None \<Rightarrow> None | Some d \<Rightarrow> if d < radix then Some d else None)"

fun digitsVal :: "nat \<Rightarrow> nat \<Rightarrow> string \<Rightarrow> nat option" where
  "digitsVal radix acc [] = Some acc"
| "digitsVal radix acc (c # cs) =
     (case digitVal radix c of
        None \<Rightarrow> None
      | Some d \<Rightarrow> digitsVal radix (radix * acc + d) cs)"

text \<open>A non-empty run of digits of the radix, and nothing else.\<close>

definition radixLiteral :: "nat \<Rightarrow> string \<Rightarrow> nat option" where
  "radixLiteral radix s = (if s = [] then None else digitsVal radix 0 s)"

text \<open>The exponent part after the letter e: an optional sign and a non-empty run of digits.\<close>

definition exponentPart :: "string \<Rightarrow> int option" where
  "exponentPart s =
     (case s of
        [] \<Rightarrow> None
      | c # cs \<Rightarrow>
          if c = CHR ''-'' then map_option (\<lambda>n. - int n) (radixLiteral 10 cs)
          else if c = CHR ''+'' then map_option int (radixLiteral 10 cs)
          else map_option int (radixLiteral 10 s))"

definition scale10 :: "rat \<Rightarrow> int \<Rightarrow> rat" where
  "scale10 m e = (if 0 \<le> e then m * 10 ^ nat e else m / 10 ^ nat (- e))"

text \<open>
  An unsigned decimal literal other than \<open>Infinity\<close>: digits with an optional fraction, or a
  fraction alone, then an optional exponent.
\<close>

definition unsignedDecimal :: "string \<Rightarrow> rat option" where
  "unsignedDecimal s =
     (let ip = takeWhile isDigit s;
          r1 = dropWhile isDigit s;
          dot = (r1 \<noteq> [] \<and> hd r1 = CHR ''.'');
          fp = (if dot then takeWhile isDigit (tl r1) else []);
          r2 = (if dot then dropWhile isDigit (tl r1) else r1);
          m = of_nat (the (digitsVal 10 0 ip))
              + of_nat (the (digitsVal 10 0 fp)) / 10 ^ length fp
      in if ip = [] \<and> fp = [] then None
         else case r2 of
                [] \<Rightarrow> Some m
              | c # r3 \<Rightarrow>
                  if c = CHR ''e'' \<or> c = CHR ''E''
                  then map_option (scale10 m) (exponentPart r3)
                  else None)"

text \<open>
  The conversion of a string to a number: white space is trimmed, the empty string is 0, a
  literal in radix 16, 8 or 2 carries its prefix and no sign, a decimal literal may carry a
  sign, anything else is NaN.
\<close>

definition StringToNumber :: "string \<Rightarrow> jsnum" where
  "StringToNumber s =
     (let t = trim s in
      if t = [] then Fin 0
      else if take 2 t = ''0x'' \<or> take 2 t = ''0X''
        then (case radixLiteral 16 (drop 2 t) of None \<Rightarrow> NaN | Some n \<Rightarrow> toDouble (of_nat n))
      else if take 2 t = ''0o'' \<or> take 2 t = ''0O''
        then (case radixLiteral 8 (drop 2 t) of None \<Rightarrow> NaN | Some n \<Rightarrow> toDouble (of_nat n))
      else if take 2 t = ''0b'' \<or> take 2 t = ''0B''
        then (case radixLiteral 2 (drop 2 t) of None \<Rightarrow> NaN | Some n \<Rightarrow> toDouble (of_nat n))
      else
        let neg = (hd t = CHR ''-'');
            u = (if hd t = CHR ''-'' \<or> hd t = CHR ''+'' then tl t else t)
        in if u = ''Infinity'' then (if neg then NInf else PInf)
           else case unsignedDecimal u of
                  None \<Rightarrow> NaN
                | Some q \<Rightarrow> toDouble (if neg then - q else q))"

fun Number :: "jsval \<Rightarrow> jsnum" where
  "Number JUndefined = NaN"
| "Number JNull = Fin 0"
| "Number (JBool b) = Fin (if b then 1 else 0)"
| "Number (JNum n) = n"
| "Number (JStr s) = StringToNumber s"

text \<open>\<open>n || 0\<close> on a number: NaN and zero are falsy.\<close>

definition orZero :: "jsnum \<Rightarrow> jsnum" where
  "orZero n = (if n = NaN \<or> n = Fin 0 then Fin 0 else n)"

text \<open>\<open>v ?? d\<close>: the default replaces \<open>null\<close> and \<open>undefined\<close> only.\<close>

definition nullish :: "jsval \<Rightarrow> jsval \<Rightarrow> jsval" where
  "nullish v d = (if v = JUndefined \<or> v = JNull then d else v)"


section \<open>CBS items\<close>

record cbs_item =
  cbs_id :: string
  cbs_name :: string
  baseCost :: jsval
  confidenceFactor :: string
  bestCaseCost :: jsval
  mostLikelyCost :: jsval
  worstCaseCost :: jsval
  driverGroup :: string
  cbs_sensitivity :: string

text \<open>A patch names any subset of the fields of an item.\<close>

record cbs_patch =
  p_id :: "string option"
  p_name :: "string option"
  p_baseCost :: "jsval option"
  p_confidenceFactor :: "string option"
  p_bestCaseCost :: "jsval option"
  p_mostLikelyCost :: "jsval option"
  p_worstCaseCost :: "jsval option"
  p_driverGroup :: "string option"
  p_sensitivity :: "string option"

definition isUserDefinedFactor :: "string \<Rightarrow> bool" where
  "isUserDefinedFactor cf = (toLowerCase (trim cf) = ''user defined'')"

definition orElse :: "'a option \<Rightarrow> 'a \<Rightarrow> 'a" where
  "orElse p v = (case p of None \<Rightarrow> v | Some w \<Rightarrow> w)"

text \<open>The object spread \<open>{ ...x, ...patch }\<close>.\<close>

definition mergeCbs :: "cbs_item \<Rightarrow> cbs_patch \<Rightarrow> cbs_item" where
  "mergeCbs x patch =
     \<lparr> cbs_id = orElse (p_id patch) (cbs_id x),
       cbs_name = orElse (p_name patch) (cbs_name x),
       baseCost = orElse (p_baseCost patch) (baseCost x),
       confidenceFactor = orElse (p_confidenceFactor patch) (confidenceFactor x),
       bestCaseCost = orElse (p_bestCaseCost patch) (bestCaseCost x),
       mostLikelyCost = orElse (p_mostLikelyCost patch) (mostLikelyCost x),
       worstCaseCost = orElse (p_worstCaseCost patch) (worstCaseCost x),
       driverGroup = orElse (p_driverGroup patch) (driverGroup x),
       cbs_sensitivity = orElse (p_sensitivity patch) (cbs_sensitivity x) \<rparr>"

text \<open>The body of the \<open>map\<close> callback of \<open>updateCbsRow\<close>, for the item whose id matches.\<close>

definition patchCbsItem :: "cbs_patch \<Rightarrow> cbs_item \<Rightarrow> cbs_item" where
  "patchCbsItem patch x =
     (let next = mergeCbs x patch in
      if p_confidenceFactor patch \<noteq> None \<and> \<not> isUserDefinedFactor (confidenceFactor next)
      then next \<lparr> bestCaseCost := JNull, mostLikelyCost := JNull, worstCaseCost := JNull \<rparr>
      else next)"

definition updateCbsItems :: "string \<Rightarrow> cbs_patch \<Rightarrow> cbs_item list \<Rightarrow> cbs_item list" where
  "updateCbsItems i patch prev = map (\<lambda>x. if cbs_id x \<noteq> i then x else patchCbsItem patch x) prev"

section \<open>Derived cost calculator\<close>

text \<open>
  An entry of the confidence-factor table; a multiplier the entry does not carry reads as
  \<open>undefined\<close>.
\<close>

record factor_entry =
  f_best :: jsval
  f_most_likely :: jsval
  f_worst :: jsval

record derived_costs =
  best :: jsnum
  ml :: jsnum
  worst :: jsnum
  isDerived :: bool

definition calcDerivedCosts :: "(string \<rightharpoonup> factor_entry) \<Rightarrow> cbs_item \<Rightarrow> derived_costs" where
  "calcDerivedCosts confidenceFactorMap row =
     (if isUserDefinedFactor (confidenceFactor row)
      then \<lparr> best = Number (bestCaseCost row), ml = Number (mostLikelyCost row),
             worst = Number (worstCaseCost row), isDerived = False \<rparr>
      else
        let base = orZero (Number (baseCost row)) in
        case confidenceFactorMap (confidenceFactor row) of
          None \<Rightarrow> \<lparr> best = NaN, ml = NaN, worst = NaN, isDerived = True \<rparr>
        | Some f \<Rightarrow>
            \<lparr> best = jsmul base (Number (nullish (f_best f) (JNum (Fin 1)))),
              ml = jsmul base (Number (nullish (f_most_likely f) (JNum (Fin 1)))),
              worst = jsmul base (Number (nullish (f_worst f) (JNum (Fin 1)))),
              isDerived = True \<rparr>)"

section \<open>Confidence-factor bootstrap\<close>

definition EXCLUDED_FACTORS :: "string list" where
  "EXCLUDED_FACTORS = [''% Allocation'']"

text \<open>
  The usable keys computed once the table arrives: the keys of the fetched object, in their
  order, without the excluded ones.
\<close>

definition usableKeys :: "string list \<Rightarrow> string list" where
  "usableKeys keysRaw = filter (\<lambda>k. k \<notin> set EXCLUDED_FACTORS) keysRaw"

section \<open>Tabular import\<close>

definition LF :: char where
  "LF = CHR 0x0A"

definition CR :: char where
  "CR = CHR 0x0D"

text \<open>\<open>replace(/\r\n/g, "\n")\<close>, scanning from the left.\<close>

fun crlfToLf :: "string \<Rightarrow> string" where
  "crlfToLf (c # d # r) = (if c = CR \<and> d = LF then LF # crlfToLf r else c # crlfToLf (d # r))"
| "crlfToLf s = s"

definition crToLf :: "string \<Rightarrow> string" where
  "crToLf s = map (\<lambda>c. if c = CR then LF else c) s"

text \<open>\<open>split\<close> on a one-character separator: one piece more than there are separators.\<close>

fun splitOn :: "char \<Rightarrow> string \<Rightarrow> string list" where
  "splitOn sep [] = [[]]"
| "splitOn sep (c # cs) =
     (let r = splitOn sep cs in if c = sep then [] # r else (c # hd r) # tl r)"

definition normaliseLines :: "string \<Rightarrow> string list" where
  "normaliseLines text =
     filter (\<lambda>l. 0 < length l) (map trim (splitOn LF (crToLf (crlfToLf text))))"

text \<open>
  \<open>replace(/^q(.*)q$/, "$1")\<close> for a quote character q: a cell that starts and ends with the
  quote, the text between them free of line terminators, loses both.
\<close>

definition stripQuotes :: "char \<Rightarrow> string \<Rightarrow> string" where
  "stripQuotes q c =
     (if 2 \<le> length c \<and> hd c = q \<and> last c = q
         \<and> list_all (\<lambda>ch. ch \<noteq> LF \<and> ch \<noteq> CR) (butlast (tl c))
      then butlast (tl c) else c)"

definition splitRow :: "string \<Rightarrow> string list" where
  "splitRow row =
     map (stripQuotes (CHR 0x27)) (map (stripQuotes (CHR 0x22)) (map trim (splitOn (CHR '','') row)))"

text \<open>\<open>indexOf\<close>, with \<open>None\<close> for -1.\<close>

fun indexOf :: "'a list \<Rightarrow> 'a \<Rightarrow> nat option" where
  "indexOf [] a = None"
| "indexOf (x # xs) a = (if x = a then Some 0 else map_option Suc (indexOf xs a))"

text \<open>The index of the first alias, in the order of the aliases, that the header carries.\<close>

fun findIdx :: "string list \<Rightarrow> string list \<Rightarrow> nat option" where
  "findIdx header [] = None"
| "findIdx header (a # as) =
     (case indexOf header (toLowerCase a) of
        Some i \<Rightarrow> Some i
      | None \<Rightarrow> findIdx header as)"

text \<open>\<open>cells[i]\<close>, with \<open>None\<close> for \<open>undefined\<close>, and \<open>cells[i] || ""\<close>.\<close>

definition cellAt :: "string list \<Rightarrow> nat \<Rightarrow> string option" where
  "cellAt cells i = (if i < length cells then Some (cells ! i) else None)"

definition cellOrEmpty :: "string list \<Rightarrow> nat \<Rightarrow> string" where
  "cellOrEmpty cells i = (if i < length cells then cells ! i else [])"

subsection \<open>CBS import\<close>

record csv_row =
  row_name :: string
  row_baseCost :: jsval
  row_low :: jsval
  row_mostLikely :: jsval
  row_high :: jsval

definition toNumOrNull :: "string option \<Rightarrow> jsval" where
  "toNumOrNull v =
     (let s = trim (case v of None \<Rightarrow> [] | Some c \<Rightarrow> c) in
      if s = [] then JNull
      else let n = StringToNumber s in if isFinite n then JNum n else JNull)"

text \<open>The row pushed for a data line of a file with a name column.\<close>

definition cbsRowOf ::
  "string \<Rightarrow> nat option \<Rightarrow> nat option \<Rightarrow> nat option \<Rightarrow> nat option \<Rightarrow> string list \<Rightarrow> csv_row" where
  "cbsRowOf name baseIdx lowIdx mlIdx highIdx cells =
     (let hasTrioCols = (lowIdx \<noteq> None \<and> mlIdx \<noteq> None \<and> highIdx \<noteq> None) in
      \<lparr> row_name = name,
        row_baseCost = (case baseIdx of None \<Rightarrow> JNull | Some b \<Rightarrow> toNumOrNull (cellAt cells b)),
        row_low = (if hasTrioCols then toNumOrNull (cellAt cells (the lowIdx)) else JNull),
        row_mostLikely = (if hasTrioCols then toNumOrNull (cellAt cells (the mlIdx)) else JNull),
        row_high = (if hasTrioCols then toNumOrNull (cellAt cells (the highIdx)) else JNull) \<rparr>)"

text \<open>The name a data line carries in column \<open>nameIdx\<close>: \<open>(cells[nameIdx] || "").trim()\<close>.\<close>

definition lineName :: "nat \<Rightarrow> string \<Rightarrow> string" where
  "lineName nameIdx line = trim (cellOrEmpty (splitRow line) nameIdx)"

text \<open>Case A, the loop over the data lines; \<open>seen\<close> holds the lower-cased names met so far.\<close>

fun cbsRowsA ::
  "nat \<Rightarrow> nat option \<Rightarrow> nat option \<Rightarrow> nat option \<Rightarrow> nat option \<Rightarrow> string list \<Rightarrow> string list
     \<Rightarrow> csv_row list" where
  "cbsRowsA nameIdx baseIdx lowIdx mlIdx highIdx seen [] = []"
| "cbsRowsA nameIdx baseIdx lowIdx mlIdx highIdx seen (l # ls) =
     (let cells = splitRow l;
          name = trim (cellOrEmpty cells nameIdx)
      in if name = [] then cbsRowsA nameIdx baseIdx lowIdx mlIdx highIdx seen ls
         else if toLowerCase name \<in> set seen
           then cbsRowsA nameIdx baseIdx lowIdx mlIdx highIdx seen ls
         else cbsRowOf name baseIdx lowIdx mlIdx highIdx cells
                # cbsRowsA nameIdx baseIdx lowIdx mlIdx highIdx (toLowerCase name # seen) ls)"

text \<open>Case B, a file without a name column: the first cell of every line is a name.\<close>

fun cbsRowsB :: "string list \<Rightarrow> string list \<Rightarrow> csv_row list" where
  "cbsRowsB seen [] = []"
| "cbsRowsB seen (l # ls) =
     (let name = trim (cellOrEmpty (splitRow l) 0)
      in if name = [] then cbsRowsB seen ls
         else if toLowerCase name \<in> set seen then cbsRowsB seen ls
         else \<lparr> row_name = name, row_baseCost = JNull, row_low = JNull,
                row_mostLikely = JNull, row_high = JNull \<rparr>
                # cbsRowsB (toLowerCase name # seen) ls)"

text \<open>The lower-cased cells of the first line.\<close>

definition headerOf :: "string \<Rightarrow> string list" where
  "headerOf csvText = map toLowerCase (splitRow (hd (normaliseLines csvText)))"

definition parseCbsCsv :: "string \<Rightarrow> csv_row list" where
  "parseCbsCsv csvText =
     (let lines = normaliseLines csvText in
      if lines = [] then []
      else
        let header = headerOf csvText;
            nameIdx = findIdx header [''name'', ''cbs'', ''cbsname''];
            baseIdx = findIdx header [''basecost'', ''base_cost'', ''cost'', ''base''];
            lowIdx = findIdx header [''low'', ''lowcost'', ''best'', ''bestcase'', ''min''];
            mlIdx = findIdx header
                      [''mostlikely'', ''most_likely'', ''mostlikelycost'', ''mode'', ''ml''];
            highIdx = findIdx header [''high'', ''highcost'', ''worst'', ''worstcase'', ''max'']
        in case nameIdx of
             Some n \<Rightarrow> cbsRowsA n baseIdx lowIdx mlIdx highIdx [] (tl lines)
           | None \<Rightarrow> cbsRowsB [] lines)"

text \<open>Decimal digits of a natural number, \<open>padStart\<close> and the sequential identifiers.\<close>

fun showNat :: "nat \<Rightarrow> string" where
  "showNat n =
     (if n < 10 then [char_of (48 + n)] else showNat (n div 10) @ [char_of (48 + n mod 10)])"

declare showNat.simps [simp del]

definition padStart :: "nat \<Rightarrow> char \<Rightarrow> string \<Rightarrow> string" where
  "padStart w c s = replicate (w - length s) c @ s"

definition makeSequentialId :: "string \<Rightarrow> nat \<Rightarrow> string" where
  "makeSequentialId pre n = pre @ padStart 2 (CHR ''0'') (showNat n)"

definition defaultFactor :: "string list \<Rightarrow> string" where
  "defaultFactor confidenceFactors =
     (if ''Realistic'' \<in> set confidenceFactors then ''Realistic''
      else case confidenceFactors of
             [] \<Rightarrow> ''Realistic''
           | k # ks \<Rightarrow> if k = [] then ''Realistic'' else k)"

text \<open>\<open>typeof v === "number" && Number.isFinite(v)\<close>.\<close>

fun isFiniteNumber :: "jsval \<Rightarrow> bool" where
  "isFiniteNumber (JNum n) = isFinite n"
| "isFiniteNumber _ = False"

text \<open>The item built from a parsed row in \<open>onCbsCsvSelected\<close>; \<open>idx\<close> counts from 0.\<close>

definition cbsItemOfRow :: "string \<Rightarrow> nat \<Rightarrow> csv_row \<Rightarrow> cbs_item" where
  "cbsItemOfRow dflt idx row =
     (let hasUserDefined =
            (isFiniteNumber (row_baseCost row) \<and> isFiniteNumber (row_low row)
             \<and> isFiniteNumber (row_mostLikely row) \<and> isFiniteNumber (row_high row))
      in \<lparr> cbs_id = makeSequentialId ''cbs'' (idx + 1),
           cbs_name = row_name row,
           baseCost = nullish (row_baseCost row) (JNum (Fin 0)),
           confidenceFactor = (if hasUserDefined then ''User defined'' else dflt),
           bestCaseCost = (if hasUserDefined then JNum (Number (row_low row)) else JNull),
           mostLikelyCost = (if hasUserDefined then JNum (Number (row_mostLikely row)) else JNull),
           worstCaseCost = (if hasUserDefined then JNum (Number (row_high row)) else JNull),
           driverGroup = [],
           cbs_sensitivity = ''medium'' \<rparr>)"

definition importedCbsItems :: "string list \<Rightarrow> csv_row list \<Rightarrow> cbs_item list" where
  "importedCbsItems confidenceFactors rows =
     map (\<lambda>(idx, row). cbsItemOfRow (defaultFactor confidenceFactors) idx row)
       (zip [0 ..< length rows] rows)"

subsection \<open>Risk import\<close>

record parsed_risk =
  pr_name :: string
  pr_riskType :: string
  pr_probability :: jsnum
  pr_lowCost :: jsnum
  pr_mostLikelyCost :: jsnum
  pr_highCost :: jsnum

text \<open>
  The warnings of the risk parser. The two whole-file messages are kept as text; a row-level
  warning keeps the row number shown, the label and the values its message interpolates:
  \<open>WMissingName\<close> is "Row n: missing risk name; skipped.", \<open>WInvalidType\<close> "Row n: invalid
  riskType 'raw', defaulted to 'contingent'.", \<open>WProbNaN\<close> "Row n: probability not a number;
  set to 0.", \<open>WProbRange\<close> "Row n: probability out of range; clamped to 0-1.", \<open>WCostNaN\<close>
  "Row n: label not a number; set to 0.", \<open>WCostNeg\<close> "Row n: label < 0; set to 0." and
  \<open>WOrder\<close> "Row n: expected low <= mostLikely <= high (got ...). Simulation will still run.".
\<close>

datatype warning =
    WText string
  | WMissingName nat
  | WInvalidType nat string
  | WProbNaN nat
  | WProbRange nat
  | WCostNaN nat string
  | WCostNeg nat string
  | WOrder nat jsnum jsnum jsnum

fun joinWith :: "string \<Rightarrow> string list \<Rightarrow> string" where
  "joinWith sep [] = []"
| "joinWith sep [x] = x"
| "joinWith sep (x # y # ys) = x @ sep @ joinWith sep (y # ys)"

definition toNum :: "string \<Rightarrow> jsnum" where
  "toNum v = (let n = StringToNumber (trim v) in if isFinite n then n else NaN)"

definition fixCost :: "nat \<Rightarrow> jsnum \<Rightarrow> string \<Rightarrow> jsnum \<times> warning list" where
  "fixCost rowNum val label =
     (if \<not> isFinite val then (Fin 0, [WCostNaN (rowNum + 1) label])
      else if jsless val (Fin 0) then (Fin 0, [WCostNeg (rowNum + 1) label])
      else (val, []))"

definition jsmin :: "jsnum \<Rightarrow> jsnum \<Rightarrow> jsnum" where
  "jsmin a b = (if a = NaN \<or> b = NaN then NaN else if jsless b a then b else a)"

definition jsmax :: "jsnum \<Rightarrow> jsnum \<Rightarrow> jsnum" where
  "jsmax a b = (if a = NaN \<or> b = NaN then NaN else if jsless a b then b else a)"

text \<open>
  One pass of the loop body for the line at index \<open>rowNum\<close>: the risk pushed, if any, and the
  warnings pushed, in their order.
\<close>

definition riskRow ::
  "nat \<Rightarrow> nat option \<Rightarrow> nat \<Rightarrow> nat \<Rightarrow> nat \<Rightarrow> nat \<Rightarrow> nat \<Rightarrow> string
     \<Rightarrow> parsed_risk option \<times> warning list" where
  "riskRow nameIdx typeIdx pIdx lowIdx mlIdx highIdx rowNum line =
     (let cells = splitRow line;
          name = trim (cellOrEmpty cells nameIdx)
      in if name = [] then (None, [WMissingName (rowNum + 1)])
         else
           let raw = (case typeIdx of
                        None \<Rightarrow> []
                      | Some t \<Rightarrow> toLowerCase (trim (cellOrEmpty cells t)));
               riskType = (if raw = ''inherent'' \<or> raw = ''contingent'' then raw
                           else ''contingent'');
               w0 = (if raw = ''inherent'' \<or> raw = ''contingent'' \<or> raw = [] then []
                     else [WInvalidType (rowNum + 1) raw]);
               p0 = toNum (cellOrEmpty cells pIdx);
               w1 = (if \<not> isFinite p0 then [WProbNaN (rowNum + 1)] else []);
               p1 = (if \<not> isFinite p0 then Fin 0 else p0);
               outside = (jsless p1 (Fin 0) \<or> jsgreater p1 (Fin 1));
               w2 = (if outside then [WProbRange (rowNum + 1)] else []);
               probability = (if outside then jsmin (Fin 1) (jsmax (Fin 0) p1) else p1);
               lo = fixCost rowNum (toNum (cellOrEmpty cells lowIdx)) ''lowCost'';
               mo = fixCost rowNum (toNum (cellOrEmpty cells mlIdx)) ''mostLikelyCost'';
               hi = fixCost rowNum (toNum (cellOrEmpty cells highIdx)) ''highCost'';
               w3 = snd lo @ snd mo @ snd hi
           in if riskType = ''inherent''
              then (Some \<lparr> pr_name = name, pr_riskType = riskType, pr_probability = probability,
                           pr_lowCost = Fin 0, pr_mostLikelyCost = Fin 0, pr_highCost = Fin 0 \<rparr>,
                    w0 @ w1 @ w2 @ w3)
              else (Some \<lparr> pr_name = name, pr_riskType = riskType, pr_probability = probability,
                           pr_lowCost = fst lo, pr_mostLikelyCost = fst mo,
                           pr_highCost = fst hi \<rparr>,
                    w0 @ w1 @ w2 @ w3
                    @ (if \<not> (jsle (fst lo) (fst mo) \<and> jsle (fst mo) (fst hi))
                       then [WOrder (rowNum + 1) (fst lo) (fst mo) (fst hi)] else [])))"

text \<open>The labels of the mandatory columns the header does not resolve, in the order tested.\<close>

definition missingHeaders ::
  "nat option \<Rightarrow> nat option \<Rightarrow> nat option \<Rightarrow> nat option \<Rightarrow> nat option \<Rightarrow> string list" where
  "missingHeaders nameIdx pIdx lowIdx mlIdx highIdx =
     (if nameIdx = None then [''name (or risk)''] else [])
     @ (if pIdx = None then [''probability (or p)''] else [])
     @ (if lowIdx = None then [''lowCost (or low)''] else [])
     @ (if mlIdx = None then [''mostLikelyCost (or mostLikely/mode)''] else [])
     @ (if highIdx = None then [''highCost (or high)''] else [])"

definition parseRisksCsv :: "string \<Rightarrow> parsed_risk list \<times> warning list" where
  "parseRisksCsv csvText =
     (let lines = normaliseLines csvText in
      if lines = [] then ([], [WText ''No rows found.''])
      else
        let headerCells = headerOf csvText;
            nameIdx = findIdx headerCells [''name'', ''risk''];
            typeIdx = findIdx headerCells [''risktype'', ''type''];
            pIdx = findIdx headerCells [''probability'', ''p''];
            lowIdx = findIdx headerCells [''lowcost'', ''low''];
            mlIdx = findIdx headerCells [''mostlikelycost'', ''mostlikely'', ''mode''];
            highIdx = findIdx headerCells [''highcost'', ''high''];
            missing = missingHeaders nameIdx pIdx lowIdx mlIdx highIdx
        in if missing \<noteq> []
           then ([], [WText (''Missing required headers: '' @ joinWith '', '' missing)])
           else
             let rs = map (\<lambda>(rowNum, line).
                             riskRow (the nameIdx) typeIdx (the pIdx) (the lowIdx) (the mlIdx)
                               (the highIdx) rowNum line)
                        (zip [1 ..< length lines] (tl lines))
             in (List.map_filter fst rs, concat (map snd rs)))"

text \<open>The data lines that yield a risk: the loop skips a line without a name.\<close>

definition riskDataLines :: "string \<Rightarrow> string list" where
  "riskDataLines csvText =
     filter (\<lambda>line. lineName (the (findIdx (headerOf csvText) [''name'', ''risk''])) line \<noteq> [])
       (tl (normaliseLines csvText))"

section \<open>Risks\<close>

record risk =
  risk_id :: string
  risk_name :: string
  riskType :: string
  probability :: jsval
  lowCost :: jsval
  risk_mostLikelyCost :: jsval
  highCost :: jsval

record risk_patch =
  q_id :: "string option"
  q_name :: "string option"
  q_riskType :: "string option"
  q_probability :: "jsval option"
  q_lowCost :: "jsval option"
  q_mostLikelyCost :: "jsval option"
  q_highCost :: "jsval option"

definition mergeRisk :: "risk \<Rightarrow> risk_patch \<Rightarrow> risk" where
  "mergeRisk x patch =
     \<lparr> risk_id = orElse (q_id patch) (risk_id x),
       risk_name = orElse (q_name patch) (risk_name x),
       riskType = orElse (q_riskType patch) (riskType x),
       probability = orElse (q_probability patch) (probability x),
       lowCost = orElse (q_lowCost patch) (lowCost x),
       risk_mostLikelyCost = orElse (q_mostLikelyCost patch) (risk_mostLikelyCost x),
       highCost = orElse (q_highCost patch) (highCost x) \<rparr>"

text \<open>The body of the \<open>map\<close> callback of \<open>updateRiskRow\<close>, for the risk whose id matches.\<close>

definition patchRisk :: "risk_patch \<Rightarrow> risk \<Rightarrow> risk" where
  "patchRisk patch x =
     (let next = mergeRisk x patch in
      case q_riskType patch of
        None \<Rightarrow> next
      | Some t \<Rightarrow>
          if toLowerCase t = ''inherent''
          then next \<lparr> lowCost := JNum (Fin 0), risk_mostLikelyCost := JNum (Fin 0),
                      highCost := JNum (Fin 0) \<rparr>
          else next)"

definition updateRisks :: "string \<Rightarrow> risk_patch \<Rightarrow> risk list \<Rightarrow> risk list" where
  "updateRisks i patch prev = map (\<lambda>x. if risk_id x \<noteq> i then x else patchRisk patch x) prev"

text \<open>The risk built from a parsed row in \<open>onRisksCsvSelected\<close>; \<open>idx\<close> counts from 0.\<close>

definition riskOfParsed :: "nat \<Rightarrow> parsed_risk \<Rightarrow> risk" where
  "riskOfParsed idx r =
     \<lparr> risk_id = makeSequentialId ''r'' (idx + 1),
       risk_name = pr_name r,
       riskType = (if pr_riskType r = [] then ''contingent'' else pr_riskType r),
       probability = JNum (pr_probability r),
       lowCost = JNum (pr_lowCost r),
       risk_mostLikelyCost = JNum (pr_mostLikelyCost r),
       highCost = JNum (pr_highCost r) \<rparr>"

definition importedRisks :: "parsed_risk list \<Rightarrow> risk list" where
  "importedRisks parsed = map (\<lambda>(idx, r). riskOfParsed idx r) (zip [0 ..< length parsed] parsed)"

section \<open>Sensitivity classifier\<close>

record sens_row =
  sr_name :: string
  category :: string
  spearman_rho :: jsval
  abs_rho :: jsval

definition DOMINANT_MIN :: jsnum where
  "DOMINANT_MIN = Fin (30 / 100)"

definition MODERATE_MIN :: jsnum where
  "MODERATE_MIN = Fin (15 / 100)"

definition MAX_PER_GROUP :: nat where
  "MAX_PER_GROUP = 6"

definition absRhoOrZero :: "sens_row \<Rightarrow> jsnum" where
  "absRhoOrZero x = orZero (Number (abs_rho x))"

text \<open>The comparator handed to \<open>sort\<close>.\<close>

definition byAbsRhoDesc :: "sens_row \<Rightarrow> sens_row \<Rightarrow> jsnum" where
  "byAbsRhoDesc a b = jssub (absRhoOrZero b) (absRhoOrZero a)"

text \<open>
  \<open>sort\<close> is stable: an element moves behind another one only where the comparator is
  positive. The list is built from the right, so the element inserted stood before every
  element of the list it is inserted into.
\<close>

fun insertBy :: "('a \<Rightarrow> 'a \<Rightarrow> jsnum) \<Rightarrow> 'a \<Rightarrow> 'a list \<Rightarrow> 'a list" where
  "insertBy cmp x [] = [x]"
| "insertBy cmp x (y # ys) =
     (if jsless (Fin 0) (cmp x y) then y # insertBy cmp x ys else x # y # ys)"

definition sortBy :: "('a \<Rightarrow> 'a \<Rightarrow> jsnum) \<Rightarrow> 'a list \<Rightarrow> 'a list" where
  "sortBy cmp xs = foldr (insertBy cmp) xs []"

text \<open>Rows in descending order of their absolute correlation.\<close>

definition descendingByAbsRho :: "sens_row list \<Rightarrow> bool" where
  "descendingByAbsRho rows = sorted_wrt (\<lambda>a b. jsge (absRhoOrZero a) (absRhoOrZero b)) rows"

record grouped =
  dominant :: "sens_row list"
  moderate :: "sens_row list"

definition groupedSensitivity :: "sens_row list \<Rightarrow> grouped" where
  "groupedSensitivity rows =
     (let sorted = sortBy byAbsRhoDesc rows in
      \<lparr> dominant = take MAX_PER_GROUP (filter (\<lambda>x. jsge (absRhoOrZero x) DOMINANT_MIN) sorted),
        moderate = take MAX_PER_GROUP
                     (filter (\<lambda>x. jsge (absRhoOrZero x) MODERATE_MIN
                                  \<and> jsless (absRhoOrZero x) DOMINANT_MIN) sorted) \<rparr>)"

text \<open>The two tables the results panel renders, \<open>dom\<close> and \<open>mod\<close>.\<close>

definition renderedDom :: "sens_row list \<Rightarrow> sens_row list" where
  "renderedDom sensitivity =
     take 8 (filter (\<lambda>d. jsge (Number (abs_rho d)) (Fin (30 / 100))) sensitivity)"

definition renderedMod :: "sens_row list \<Rightarrow> sens_row list" where
  "renderedMod sensitivity =
     take 10 (filter (\<lambda>d. jsge (Number (abs_rho d)) (Fin (15 / 100))
                         \<and> jsless (Number (abs_rho d)) (Fin (30 / 100))) sensitivity)"

section \<open>Application state and events\<close>

record sim_results =
  p5 :: jsval
  p10 :: jsval
  p50 :: jsval
  p90 :: jsval
  contingency_p90_minus_p50 :: jsval

text \<open>The body of a simulation response: \<open>results\<close> if truthy, \<open>sensitivity\<close> if an array.\<close>

record sim_response =
  resp_results :: "sim_results option"
  resp_sensitivity :: "sens_row list option"

datatype error_entry =
    ErrText string string
  | ErrWarnings string "warning list"

record app_state =
  confidenceFactors :: "string list"
  confidenceFactorMap :: "string \<rightharpoonup> factor_entry"
  errors :: "error_entry list"
  projectName :: string
  projectId :: string
  projectManager :: string
  projectDate :: string
  projectNotes :: string
  cbsCounter :: nat
  riskCounter :: nat
  cbsItems :: "cbs_item list"
  risks :: "risk list"
  iterations :: jsval
  seed :: jsval
  correlationMode :: string
  results :: "sim_results option"
  isRunning :: bool
  sensitivity :: "sens_row list"
  commentary :: "string option"
  commentaryMode :: "string option"
  isCommentaryRunning :: bool
  commentaryError :: "string option"

definition starterCbs :: "string \<Rightarrow> string \<Rightarrow> cbs_item" where
  "starterCbs i n =
     \<lparr> cbs_id = i, cbs_name = n, baseCost = JNum (Fin 0), confidenceFactor = ''Realistic'',
       bestCaseCost = JNull, mostLikelyCost = JNull, worstCaseCost = JNull,
       driverGroup = [], cbs_sensitivity = ''medium'' \<rparr>"

definition initialState :: app_state where
  "initialState =
     \<lparr> confidenceFactors = [],
       confidenceFactorMap = Map.empty,
       errors = [],
       projectName = [], projectId = [], projectManager = [], projectDate = [],
       projectNotes = [],
       cbsCounter = 4,
       riskCounter = 2,
       cbsItems =
         [starterCbs ''cbs01'' ''INVESTIGATION'', starterCbs ''cbs02'' ''FUNCTIONAL DESIGN'',
          starterCbs ''cbs03'' ''DETAILED DESIGN'', starterCbs ''cbs04'' ''CONSTRUCTION''],
       risks =
         [\<lparr> risk_id = ''r01'', risk_name = ''Unknown services relocation'',
            riskType = ''contingent'', probability = JNum (Fin (2 / 10)),
            lowCost = JNum (Fin 200000), risk_mostLikelyCost = JNum (Fin 600000),
            highCost = JNum (Fin 1200000) \<rparr>,
          \<lparr> risk_id = ''r02'', risk_name = ''Contamination disposal'',
            riskType = ''contingent'', probability = JNum (Fin (1 / 10)),
            lowCost = JNum (Fin 150000), risk_mostLikelyCost = JNum (Fin 400000),
            highCost = JNum (Fin 900000) \<rparr>],
       iterations = JNum (Fin 5000),
       seed = JNum (Fin 123456),
       correlationMode = ''none'',
       results = None,
       isRunning = False,
       sensitivity = [],
       commentary = None,
       commentaryMode = None,
       isCommentaryRunning = False,
       commentaryError = None \<rparr>"

definition resetResults :: "app_state \<Rightarrow> app_state" where
  "resetResults s =
     s \<lparr> results := None, sensitivity := [], commentary := None, commentaryMode := None,
         isCommentaryRunning := False, commentaryError := None \<rparr>"

text \<open>
  The effect that runs after the usable keys change: an item whose factor is excluded or
  unknown moves to the fallback.
\<close>

definition revalidateFactors :: "string list \<Rightarrow> cbs_item list \<Rightarrow> cbs_item list" where
  "revalidateFactors keys prev =
     (if keys = [] then prev
      else
        let fallback = (if ''Realistic'' \<in> set keys then ''Realistic'' else hd keys) in
        map (\<lambda>x. if confidenceFactor x \<in> set EXCLUDED_FACTORS
                  then x \<lparr> confidenceFactor := fallback \<rparr>
                  else if confidenceFactor x \<noteq> [] \<and> confidenceFactor x \<notin> set keys
                  then x \<lparr> confidenceFactor := fallback \<rparr>
                  else x) prev)"

text \<open>
  The events of the session: the handlers of the form controls, the two file imports, the
  arrival of the confidence-factor table, and the start and the two outcomes of a run.
\<close>

datatype event =
    FactorsLoaded "(string \<times> factor_entry) list"
  | SetIterations string
  | SetSeed string
  | CorrelationNone
  | CorrelationStandard
  | AddCbsRow
  | DeleteCbsRow string
  | UpdateCbsRow string cbs_patch
  | AddRiskRow
  | DeleteRiskRow string
  | UpdateRiskRow string risk_patch
  | CbsCsvSelected string
  | RisksCsvSelected string
  | RunSimulation
  | SimulationDone sim_response
  | SimulationFailed "error_entry list"
  | CommentaryDone "string option" string
  | CommentaryFailed string

fun step :: "app_state \<Rightarrow> event \<Rightarrow> app_state" where
  "step s (FactorsLoaded factors) =
     s \<lparr> confidenceFactors := usableKeys (map fst factors),
         confidenceFactorMap := map_of factors,
         cbsItems := revalidateFactors (usableKeys (map fst factors)) (cbsItems s) \<rparr>"
| "step s (SetIterations v) = s \<lparr> iterations := JStr v \<rparr>"
| "step s (SetSeed v) = s \<lparr> seed := JStr v \<rparr>"
| "step s CorrelationNone = resetResults (s \<lparr> correlationMode := ''none'' \<rparr>)"
| "step s CorrelationStandard = resetResults (s \<lparr> correlationMode := ''standard'' \<rparr>)"
| "step s AddCbsRow =
     resetResults
       (s \<lparr> cbsCounter := cbsCounter s + 1,
            cbsItems := cbsItems s
              @ [\<lparr> cbs_id = makeSequentialId ''cbs'' (cbsCounter s + 1), cbs_name = [],
                    baseCost = JNum (Fin 0),
                    confidenceFactor = defaultFactor (confidenceFactors s),
                    bestCaseCost = JNull, mostLikelyCost = JNull, worstCaseCost = JNull,
                    driverGroup = [], cbs_sensitivity = ''medium'' \<rparr>] \<rparr>)"
| "step s (DeleteCbsRow i) =
     resetResults (s \<lparr> cbsItems := filter (\<lambda>x. cbs_id x \<noteq> i) (cbsItems s) \<rparr>)"
| "step s (UpdateCbsRow i patch) =
     resetResults (s \<lparr> cbsItems := updateCbsItems i patch (cbsItems s) \<rparr>)"
| "step s AddRiskRow =
     resetResults
       (s \<lparr> riskCounter := riskCounter s + 1,
            risks := risks s
              @ [\<lparr> risk_id = makeSequentialId ''r'' (riskCounter s + 1), risk_name = [],
                    riskType = ''contingent'', probability = JNum (Fin 0),
                    lowCost = JNum (Fin 0), risk_mostLikelyCost = JNum (Fin 0),
                    highCost = JNum (Fin 0) \<rparr>] \<rparr>)"
| "step s (DeleteRiskRow i) =
     resetResults (s \<lparr> risks := filter (\<lambda>x. risk_id x \<noteq> i) (risks s) \<rparr>)"
| "step s (UpdateRiskRow i patch) =
     resetResults (s \<lparr> risks := updateRisks i patch (risks s) \<rparr>)"
| "step s (CbsCsvSelected text) =
     (let rows = parseCbsCsv text in
      if rows = []
      then s \<lparr> errors := [ErrText ''CBS import failed'' ''No CBS names found in CSV.''] \<rparr>
      else resetResults
             (s \<lparr> cbsItems := importedCbsItems (confidenceFactors s) rows,
                  cbsCounter := length rows \<rparr>))"
| "step s (RisksCsvSelected text) =
     (let parsed = fst (parseRisksCsv text); warnings = snd (parseRisksCsv text) in
      if parsed = []
      then s \<lparr> errors := [ErrWarnings ''Risk import failed'' warnings] \<rparr>
      else
        let s' = resetResults (s \<lparr> risks := importedRisks parsed,
                                     riskCounter := length parsed \<rparr>)
        in if warnings \<noteq> []
           then s' \<lparr> errors := [ErrWarnings ''Risk import warnings (import succeeded)''
                                   warnings] \<rparr>
           else s')"
| "step s RunSimulation = (resetResults (s \<lparr> errors := [] \<rparr>)) \<lparr> isRunning := True \<rparr>"
| "step s (SimulationDone data) =
     s \<lparr> results := resp_results data,
         sensitivity := (case resp_sensitivity data of None \<Rightarrow> [] | Some rows \<Rightarrow> rows),
         isCommentaryRunning := True, commentaryError := None, commentary := None,
         commentaryMode := None, isRunning := False \<rparr>"
| "step s (SimulationFailed detail) = s \<lparr> errors := detail, isRunning := False \<rparr>"
| "step s (CommentaryDone mode text) =
     s \<lparr> commentaryMode := mode, commentary := Some text, isCommentaryRunning := False \<rparr>"
| "step s (CommentaryFailed msg) =
     s \<lparr> commentaryError := Some msg, isCommentaryRunning := False \<rparr>"

definition run :: "app_state \<Rightarrow> event list \<Rightarrow> app_state" where
  "run s evs = foldl step s evs"

text \<open>The events that change an input of the simulation.\<close>

fun mutatesInputs :: "event \<Rightarrow> bool" where
  "mutatesInputs (SetIterations v) = True"
| "mutatesInputs (SetSeed v) = True"
| "mutatesInputs CorrelationNone = True"
| "mutatesInputs CorrelationStandard = True"
| "mutatesInputs AddCbsRow = True"
| "mutatesInputs (DeleteCbsRow i) = True"
| "mutatesInputs (UpdateCbsRow i patch) = True"
| "mutatesInputs AddRiskRow = True"
| "mutatesInputs (DeleteRiskRow i) = True"
| "mutatesInputs (UpdateRiskRow i patch) = True"
| "mutatesInputs _ = False"

section \<open>Validation engine\<close>

text \<open>
  An issue keeps the number of the row it is reported for, as shown (counted from 1), and the
  rule violated. The text of every CBS issue is "CBS row n: " followed by: \<open>NameRequired\<close>
  "Name is required.", \<open>BaseCostInvalid\<close> "Base Cost must be 0 or more.", \<open>FactorRequired\<close>
  "Confidence Factor is required.", \<open>DriverRequired\<close> "Driver group is required in Standard
  correlation mode.", \<open>SensitivityInvalid\<close> "Sensitivity must be Low/Medium/High.",
  \<open>BestRequired\<close> "Best case is required (0 or more).", \<open>MostLikelyRequired\<close> "Most likely is
  required (0 or more).", \<open>WorstRequired\<close> "Worst case is required (0 or more).",
  \<open>BestAboveMostLikely\<close> "Best case must be <= Most likely." and \<open>MostLikelyAboveWorst\<close>
  "Most likely must be <= Worst case.".
\<close>

datatype cbs_rule =
    NameRequired
  | BaseCostInvalid
  | FactorRequired
  | DriverRequired
  | SensitivityInvalid
  | BestRequired
  | MostLikelyRequired
  | WorstRequired
  | BestAboveMostLikely
  | MostLikelyAboveWorst

text \<open>
  The text of every risk issue is "Risk row n: " followed by: \<open>RiskNameRequired\<close> "Risk name is
  required.", \<open>ProbabilityRange\<close> "Probability must be between 0 and 1.", \<open>LowInvalid\<close> "Low cost
  must be 0 or more.", \<open>RiskMostLikelyInvalid\<close> "Most likely cost must be 0 or more.",
  \<open>HighInvalid\<close> "High cost must be 0 or more.", \<open>LowAboveMostLikely\<close> "Low must be <= Most
  likely." and \<open>MostLikelyAboveHigh\<close> "Most likely must be <= High.".
\<close>

datatype risk_rule =
    RiskNameRequired
  | ProbabilityRange
  | LowInvalid
  | RiskMostLikelyInvalid
  | HighInvalid
  | LowAboveMostLikely
  | MostLikelyAboveHigh

text \<open>
  \<open>IterationsNotPositive\<close> is "Iterations must be a positive number.", \<open>IterationsTooLarge\<close>
  "Iterations must be 20,000 or less." and \<open>CbsItemRequired\<close> "At least one CBS cost item is
  required.".
\<close>

datatype issue =
    IterationsNotPositive
  | IterationsTooLarge
  | CbsItemRequired
  | CbsIssue nat cbs_rule
  | RiskIssue nat risk_rule

fun isNum :: "jsval \<Rightarrow> bool" where
  "isNum (JNum n) = isFinite n"
| "isNum v = (v \<noteq> JNull \<and> v \<noteq> JStr [] \<and> isFinite (Number v))"

definition pushIf :: "bool \<Rightarrow> 'a \<Rightarrow> 'a list" where
  "pushIf c x = (if c then [x] else [])"

text \<open>The issues pushed for the CBS item at index \<open>i\<close>, in their order.\<close>

definition cbsIssues :: "string \<Rightarrow> nat \<Rightarrow> cbs_item \<Rightarrow> issue list" where
  "cbsIssues mode i x =
     pushIf (trim (cbs_name x) = []) (CbsIssue (i + 1) NameRequired)
     @ pushIf (\<not> isNum (baseCost x) \<or> jsless (Number (baseCost x)) (Fin 0))
         (CbsIssue (i + 1) BaseCostInvalid)
     @ pushIf (confidenceFactor x = []) (CbsIssue (i + 1) FactorRequired)
     @ (if toLowerCase mode = ''standard''
        then pushIf (trim (driverGroup x) = []) (CbsIssue (i + 1) DriverRequired)
             @ pushIf (toLowerCase (if cbs_sensitivity x = [] then ''medium'' else cbs_sensitivity x)
                       \<notin> set [''low'', ''medium'', ''high''])
                 (CbsIssue (i + 1) SensitivityInvalid)
        else [])
     @ (if toLowerCase (confidenceFactor x) = ''user defined''
        then pushIf (\<not> isNum (bestCaseCost x) \<or> jsless (Number (bestCaseCost x)) (Fin 0))
               (CbsIssue (i + 1) BestRequired)
             @ pushIf (\<not> isNum (mostLikelyCost x) \<or> jsless (Number (mostLikelyCost x)) (Fin 0))
                 (CbsIssue (i + 1) MostLikelyRequired)
             @ pushIf (\<not> isNum (worstCaseCost x) \<or> jsless (Number (worstCaseCost x)) (Fin 0))
                 (CbsIssue (i + 1) WorstRequired)
             @ pushIf (isFinite (Number (bestCaseCost x)) \<and> isFinite (Number (mostLikelyCost x))
                     \<and> jsgreater (Number (bestCaseCost x)) (Number (mostLikelyCost x)))
                 (CbsIssue (i + 1) BestAboveMostLikely)
             @ pushIf (isFinite (Number (mostLikelyCost x)) \<and> isFinite (Number (worstCaseCost x))
                     \<and> jsgreater (Number (mostLikelyCost x)) (Number (worstCaseCost x)))
                 (CbsIssue (i + 1) MostLikelyAboveWorst)
        else [])"

text \<open>The issues pushed for the risk at index \<open>i\<close>, in their order.\<close>

definition riskIssues :: "nat \<Rightarrow> risk \<Rightarrow> issue list" where
  "riskIssues i r =
     (let p = Number (probability r);
          lo = Number (lowCost r);
          m = Number (risk_mostLikelyCost r);
          hi = Number (highCost r)
      in pushIf (trim (risk_name r) = []) (RiskIssue (i + 1) RiskNameRequired)
         @ pushIf (\<not> isFinite p \<or> jsless p (Fin 0) \<or> jsgreater p (Fin 1))
             (RiskIssue (i + 1) ProbabilityRange)
         @ pushIf (\<not> isFinite lo \<or> jsless lo (Fin 0)) (RiskIssue (i + 1) LowInvalid)
         @ pushIf (\<not> isFinite m \<or> jsless m (Fin 0)) (RiskIssue (i + 1) RiskMostLikelyInvalid)
         @ pushIf (\<not> isFinite hi \<or> jsless hi (Fin 0)) (RiskIssue (i + 1) HighInvalid)
         @ pushIf (isFinite lo \<and> isFinite m \<and> jsgreater lo m) (RiskIssue (i + 1) LowAboveMostLikely)
         @ pushIf (isFinite m \<and> isFinite hi \<and> jsgreater m hi)
             (RiskIssue (i + 1) MostLikelyAboveHigh))"

definition validationIssues :: "app_state \<Rightarrow> issue list" where
  "validationIssues s =
     (let it = Number (iterations s) in
      pushIf (\<not> isFinite it \<or> jsle it (Fin 0)) IterationsNotPositive
      @ pushIf (isFinite it \<and> jsgreater it (Fin 20000)) IterationsTooLarge
      @ pushIf (cbsItems s = []) CbsItemRequired
      @ concat (map (\<lambda>(i, x). cbsIssues (correlationMode s) i x)
                  (zip [0 ..< length (cbsItems s)] (cbsItems s)))
      @ concat (map (\<lambda>(i, r). riskIssues i r) (zip [0 ..< length (risks s)] (risks s))))"

definition isInputsValid :: "app_state \<Rightarrow> bool" where
  "isInputsValid s = (validationIssues s = [])"

section \<open>Payload builder\<close>








section \<open>Events the form can raise\<close>

text \<open>
  Iterations, seed, base cost, the three manual costs, probability and the three risk costs
  are typed into inputs of type number. Such an input hands over the empty string or the text
  of a finite number.
\<close>

definition numberInputValue :: "string \<Rightarrow> bool" where
  "numberInputValue v = (v = [] \<or> isFinite (StringToNumber v))"

text \<open>A patch field fed by a number input, where the patch names it.\<close>

fun numericText :: "jsval option \<Rightarrow> bool" where
  "numericText None = True"
| "numericText (Some (JStr v)) = numberInputValue v"
| "numericText (Some _) = False"

text \<open>The test of the risk table that greys out the three cost inputs of a row.\<close>

definition isInherent :: "risk \<Rightarrow> bool" where
  "isInherent r =
     (toLowerCase (if riskType r = [] then ''contingent'' else riskType r) = ''inherent'')"

text \<open>
  Every patch the cost table issues names one field, never the id, and carries the text of a
  number input if the field is numeric. The predicate asks no more than that of a patch.
\<close>

definition cbsFormPatch :: "cbs_patch \<Rightarrow> bool" where
  "cbsFormPatch patch =
     (p_id patch = None \<and> numericText (p_baseCost patch) \<and> numericText (p_bestCaseCost patch)
      \<and> numericText (p_mostLikelyCost patch) \<and> numericText (p_worstCaseCost patch))"

text \<open>
  Every patch the row of risk \<open>r\<close> issues names one field, never the id, and carries the text
  of a number input if the field is numeric; the three cost inputs of the row are disabled
  while the risk is inherent. The predicate asks no more than that of a patch.
\<close>

definition riskFormPatch :: "risk \<Rightarrow> risk_patch \<Rightarrow> bool" where
  "riskFormPatch r patch =
     (q_id patch = None \<and> numericText (q_probability patch) \<and> numericText (q_lowCost patch)
      \<and> numericText (q_mostLikelyCost patch) \<and> numericText (q_highCost patch)
      \<and> (if isInherent r
          then q_lowCost patch = None \<and> q_mostLikelyCost patch = None \<and> q_highCost patch = None
          else True))"

text \<open>
  Whether the form can raise an event in a state: a settings edit carries the text of a number
  input, an update of a CBS item carries a patch of the cost table, an update of a risk carries
  a patch issued by a row that shows a risk of that id. Every other event can be raised in
  every state, with any file and any response.
\<close>

fun formEvent :: "app_state \<Rightarrow> event \<Rightarrow> bool" where
  "formEvent s (SetIterations v) = numberInputValue v"
| "formEvent s (SetSeed v) = numberInputValue v"
| "formEvent s (UpdateCbsRow i patch) = cbsFormPatch patch"
| "formEvent s (UpdateRiskRow i patch) =
     list_ex (\<lambda>r. risk_id r = i \<and> riskFormPatch r patch) (risks s)"
| "formEvent s e = True"

text \<open>A sequence of events, each one raised by the form in the state the earlier ones led to.\<close>

fun formRun :: "app_state \<Rightarrow> event list \<Rightarrow> bool" where
  "formRun s [] = True"
| "formRun s (e # es) = (formEvent s e \<and> formRun (step s e) es)"






text \<open>
  What the sessions of the form keep true of the risks: the ids are the sequential ids up to the
  counter, no two alike, and an inherent risk costs nothing.
\<close>

definition costsZero :: "risk \<Rightarrow> bool" where
  "costsZero r =
     (lowCost r = JNum (Fin 0) \<and> risk_mostLikelyCost r = JNum (Fin 0) \<and> highCost r = JNum (Fin 0))"

definition inherentFree :: "risk \<Rightarrow> bool" where
  "inherentFree r = (if isInherent r then costsZero r else True)"

definition risksOk :: "app_state \<Rightarrow> bool" where
  "risksOk s =
     (distinct (map risk_id (risks s))
      \<and> list_all (\<lambda>r. risk_id r \<in> set (map (makeSequentialId ''r'') [1 ..< riskCounter s + 1]))
          (risks s)
      \<and> list_all inherentFree (risks s))"


definition parsedOk :: "parsed_risk \<Rightarrow> bool" where
  "parsedOk r =
     (isFinite (pr_probability r) \<and> isFinite (pr_lowCost r) \<and> isFinite (pr_mostLikelyCost r)
      \<and> isFinite (pr_highCost r)
      \<and> (pr_riskType r = ''contingent''
         \<or> pr_riskType r = ''inherent'' \<and> pr_lowCost r = Fin 0 \<and> pr_mostLikelyCost r = Fin 0
           \<and> pr_highCost r = Fin 0))"

section \<open>Derived costs as the specification words them\<close>

text \<open>
  The three definitions below follow the specification, not the code: a base cost whose
  coercion is not a number counts as 0, a multiplier the entry does not carry counts as 1, and
  each derived cost is the product of the two.
\<close>

definition spec_coerce :: "jsval \<Rightarrow> jsnum" where
  "spec_coerce v = (if Number v = NaN then Fin 0 else Number v)"

definition spec_baseCost :: "cbs_item \<Rightarrow> jsnum" where
  "spec_baseCost row = spec_coerce (baseCost row)"

definition spec_multiplier :: "jsval \<Rightarrow> jsnum" where
  "spec_multiplier v = (if v = JUndefined \<or> v = JNull then Fin 1 else Number v)"

definition spec_derived :: "factor_entry \<Rightarrow> cbs_item \<Rightarrow> derived_costs" where
  "spec_derived f row =
     \<lparr> best = jsmul (spec_baseCost row) (spec_multiplier (f_best f)),
       ml = jsmul (spec_baseCost row) (spec_multiplier (f_most_likely f)),
       worst = jsmul (spec_baseCost row) (spec_multiplier (f_worst f)),
       isDerived = True \<rparr>"

text \<open>
  A cell parses as a finite number when it is there, is not blank, and converts to a finite
  number; its value is then that number.
\<close>

definition spec_parsesFinite :: "string option \<Rightarrow> bool" where
  "spec_parsesFinite v =
     (case v of None \<Rightarrow> False | Some c \<Rightarrow> trim c \<noteq> [] \<and> isFinite (StringToNumber (trim c)))"

definition spec_cellValue :: "string option \<Rightarrow> jsval" where
  "spec_cellValue v = (case v of None \<Rightarrow> JNull | Some c \<Rightarrow> JNum (StringToNumber (trim c)))"

section \<open>Sample inputs\<close>

definition realisticEntry :: factor_entry where
  "realisticEntry =
     \<lparr> f_best = JNum (Fin (9 / 10)), f_most_likely = JNum (Fin 1), f_worst = JNum (Fin (12 / 10)) \<rparr>"

definition passThroughEntry :: factor_entry where
  "passThroughEntry = \<lparr> f_best = JNum (Fin 1), f_most_likely = JUndefined, f_worst = JNull \<rparr>"

definition sampleTable :: "(string \<times> factor_entry) list" where
  "sampleTable =
     [(''Realistic'', realisticEntry), (''User defined'', passThroughEntry),
      (''% Allocation'', passThroughEntry)]"

definition emptyCbsPatch :: cbs_patch where
  "emptyCbsPatch =
     \<lparr> p_id = None, p_name = None, p_baseCost = None, p_confidenceFactor = None,
       p_bestCaseCost = None, p_mostLikelyCost = None, p_worstCaseCost = None,
       p_driverGroup = None, p_sensitivity = None \<rparr>"

definition emptyRiskPatch :: risk_patch where
  "emptyRiskPatch =
     \<lparr> q_id = None, q_name = None, q_riskType = None, q_probability = None,
       q_lowCost = None, q_mostLikelyCost = None, q_highCost = None \<rparr>"

text \<open>An item in the user-defined mode, with a base cost given as the text of a form input.\<close>

definition manualItem :: cbs_item where
  "manualItem =
     \<lparr> cbs_id = ''cbs01'', cbs_name = ''INVESTIGATION'', baseCost = JStr ''250'',
       confidenceFactor = ''User defined'', bestCaseCost = JStr ''200'',
       mostLikelyCost = JStr ''260'', worstCaseCost = JStr ''400'',
       driverGroup = [], cbs_sensitivity = ''medium'' \<rparr>"

definition manualState :: app_state where
  "manualState = initialState \<lparr> cbsItems := [manualItem] \<rparr>"

definition sensRow :: "rat \<Rightarrow> sens_row" where
  "sensRow v =
     \<lparr> sr_name = ''cbs01'', category = ''CBS'', spearman_rho = JNum (Fin v),
       abs_rho = JNum (Fin v) \<rparr>"

definition sampleResponse :: sim_response where
  "sampleResponse =
     \<lparr> resp_results = Some \<lparr> p5 = JNum (Fin 90), p10 = JNum (Fin 95), p50 = JNum (Fin 100),
                             p90 = JNum (Fin 120), contingency_p90_minus_p50 = JNum (Fin 20) \<rparr>,
       resp_sensitivity = Some [sensRow (1 / 2)] \<rparr>"

text \<open>The session after one completed run on the starter inputs.\<close>

definition afterRun :: app_state where
  "afterRun = run initialState [RunSimulation, SimulationDone sampleResponse]"

text \<open>A risk file without a probability column.\<close>

definition noProbabilityCsv :: string where
  "noProbabilityCsv = ''risk,low,mode,high'' @ [LF] @ ''Weather,10,20,40''"

text \<open>A risk file whose only row is an inherent risk with costs.\<close>

definition inherentCsv :: string where
  "inherentCsv = ''name,type,p,low,mode,high'' @ [LF] @ ''Weather,Inherent,0.3,10,20,40''"

text \<open>A CBS file with a complete row and a row without the low value.\<close>

definition trioCsv :: string where
  "trioCsv =
     ''name,basecost,low,mostLikely,high'' @ [LF] @ ''A,100,90,100,120'' @ [LF]
     @ ''B,100,,100,120''"


text \<open>
  A session of the form: the first item set to the user-defined mode, best case 100 and most
  likely 50 typed, the worst case never entered.
\<close>

definition blankWorstSession :: "event list" where
  "blankWorstSession =
     [FactorsLoaded sampleTable,
      UpdateCbsRow ''cbs01'' (emptyCbsPatch \<lparr> p_confidenceFactor := Some ''User defined'' \<rparr>),
      UpdateCbsRow ''cbs01'' (emptyCbsPatch \<lparr> p_bestCaseCost := Some (JStr ''100'') \<rparr>),
      UpdateCbsRow ''cbs01'' (emptyCbsPatch \<lparr> p_mostLikelyCost := Some (JStr ''50'') \<rparr>)]"

text \<open>A session of the form: the first risk made inherent, then renamed.\<close>

definition inherentSession :: "event list" where
  "inherentSession =
     [UpdateRiskRow ''r01'' (emptyRiskPatch \<lparr> q_riskType := Some ''inherent'' \<rparr>),
      UpdateRiskRow ''r01'' (emptyRiskPatch \<lparr> q_name := Some ''Weather'' \<rparr>)]"

section \<open>Properties\<close>

subsection \<open>Numbers\<close>

lemma orZero_cases: "orZero n = (if n = NaN then Fin 0 else n)"
  by (simp add: orZero_def)

lemma orZero_not_NaN: "orZero n \<noteq> NaN"
  by (simp add: orZero_def)

lemma toDouble_zero: "toDouble 0 = Fin 0"
  by (simp add: toDouble_def overflowBound_def)

lemma jsmul_zero_finite: "isFinite m \<Longrightarrow> jsmul (Fin 0) m = Fin 0"
  by (cases m) (simp_all add: toDouble_zero)

subsection \<open>Usable confidence factors\<close>

text \<open>
  C5, as amended. The key left out of the usable set is "% Allocation": after the table has
  arrived, the usable keys are the keys of the table other than "% Allocation", in the order
  of the table; the key "User defined" is kept.
\<close>

theorem usable_keys_drop_allocation_only:
  "confidenceFactors (step s (FactorsLoaded factors))
     = filter (\<lambda>k. k \<noteq> ''% Allocation'') (map fst factors)"
  by (simp add: usableKeys_def EXCLUDED_FACTORS_def)

text \<open>
  C5, as stated, fails: a table that carries the key "User defined" leaves it among the usable
  keys.
\<close>

theorem user_defined_key_stays_usable:
  "''User defined'' \<in> set (confidenceFactors (step initialState (FactorsLoaded sampleTable)))"
  by (simp add: usableKeys_def EXCLUDED_FACTORS_def sampleTable_def)

subsection \<open>Switching the cost mode of an item\<close>

text \<open>
  C9. Let x be the item with the given id and y the same item after the update. When the patch
  names a confidence factor other than the user-defined one, the three manual fields of y are
  null. When the patch names the user-defined factor, y is x with the patch merged into it:
  every field the patch does not name, the base cost among them, keeps its value.
\<close>

theorem updateCbsRow_mode_switch:
  assumes "k < length (cbsItems s)"
    and "cbs_id (cbsItems s ! k) = i"
    and "p_confidenceFactor patch = Some cf"
    and "x = cbsItems s ! k"
    and "y = cbsItems (step s (UpdateCbsRow i patch)) ! k"
  shows "(\<not> isUserDefinedFactor cf \<longrightarrow>
            bestCaseCost y = JNull \<and> mostLikelyCost y = JNull \<and> worstCaseCost y = JNull)
       \<and> (isUserDefinedFactor cf \<longrightarrow>
            y = mergeCbs x patch
          \<and> confidenceFactor y = cf
          \<and> (p_baseCost patch = None \<longrightarrow> baseCost y = baseCost x)
          \<and> (p_id patch = None \<longrightarrow> cbs_id y = cbs_id x)
          \<and> (p_name patch = None \<longrightarrow> cbs_name y = cbs_name x)
          \<and> (p_bestCaseCost patch = None \<longrightarrow> bestCaseCost y = bestCaseCost x)
          \<and> (p_mostLikelyCost patch = None \<longrightarrow> mostLikelyCost y = mostLikelyCost x)
          \<and> (p_worstCaseCost patch = None \<longrightarrow> worstCaseCost y = worstCaseCost x)
          \<and> (p_driverGroup patch = None \<longrightarrow> driverGroup y = driverGroup x)
          \<and> (p_sensitivity patch = None \<longrightarrow> cbs_sensitivity y = cbs_sensitivity x))"
proof -
  have eq: "y = patchCbsItem patch x"
    using assms(1,2) unfolding assms(4,5) by (simp add: resetResults_def updateCbsItems_def)
  show ?thesis
    unfolding eq using assms(3)
    by (simp add: patchCbsItem_def mergeCbs_def orElse_def Let_def)
qed

theorem updateCbsRow_mode_switch_witness:
  "bestCaseCost (cbsItems (step manualState
       (UpdateCbsRow ''cbs01'' (emptyCbsPatch \<lparr> p_confidenceFactor := Some ''Realistic'' \<rparr>))) ! 0)
     = JNull
   \<and> baseCost (cbsItems (step initialState
       (UpdateCbsRow ''cbs01'' (emptyCbsPatch \<lparr> p_confidenceFactor := Some ''User defined'' \<rparr>))) ! 0)
     = baseCost (cbsItems initialState ! 0)"
proof -
  have a1: "0 < length (cbsItems manualState)"
    by (simp add: manualState_def)
  have a2: "cbs_id (cbsItems manualState ! 0) = ''cbs01''"
    by (simp add: manualState_def manualItem_def)
  have a3: "p_confidenceFactor (emptyCbsPatch \<lparr> p_confidenceFactor := Some ''Realistic'' \<rparr>)
              = Some ''Realistic''"
    by simp
  have a4: "\<not> isUserDefinedFactor ''Realistic''"
    by code_simp
  have b1: "0 < length (cbsItems initialState)"
    by (simp add: initialState_def)
  have b2: "cbs_id (cbsItems initialState ! 0) = ''cbs01''"
    by (simp add: initialState_def starterCbs_def)
  have b3: "p_confidenceFactor (emptyCbsPatch \<lparr> p_confidenceFactor := Some ''User defined'' \<rparr>)
              = Some ''User defined''"
    by simp
  have b4: "isUserDefinedFactor ''User defined''"
    by code_simp
  have b5: "p_baseCost (emptyCbsPatch \<lparr> p_confidenceFactor := Some ''User defined'' \<rparr>) = None"
    by (simp add: emptyCbsPatch_def)
  from updateCbsRow_mode_switch [OF a1 a2 a3 refl refl] a4
    updateCbsRow_mode_switch [OF b1 b2 b3 refl refl] b4 b5
  show ?thesis by blast
qed

subsection \<open>Derived costs\<close>

text \<open>
  C4. For an item whose confidence factor is not the user-defined one: when the table carries
  the factor, the derived costs are the base cost times the three multipliers of the entry,
  with a multiplier the entry lacks taken as 1 and a base cost that is no number taken as 0,
  and the result is marked as derived; a base cost of 0 with finite multipliers gives three
  zeros; when the table does not carry the factor, the three costs are NaN and the result is
  marked as derived.
\<close>

theorem calcDerivedCosts_by_factor:
  assumes "\<not> isUserDefinedFactor (confidenceFactor row)"
  shows "(\<forall>f. table (confidenceFactor row) = Some f \<longrightarrow>
            calcDerivedCosts table row = spec_derived f row
          \<and> (spec_baseCost row = Fin 0
               \<and> isFinite (spec_multiplier (f_best f))
               \<and> isFinite (spec_multiplier (f_most_likely f))
               \<and> isFinite (spec_multiplier (f_worst f)) \<longrightarrow>
              calcDerivedCosts table row
                = \<lparr> best = Fin 0, ml = Fin 0, worst = Fin 0, isDerived = True \<rparr>))
       \<and> (table (confidenceFactor row) = None \<longrightarrow>
            calcDerivedCosts table row
              = \<lparr> best = NaN, ml = NaN, worst = NaN, isDerived = True \<rparr>)"
proof -
  have absent: "table (confidenceFactor row) = None \<longrightarrow>
      calcDerivedCosts table row = \<lparr> best = NaN, ml = NaN, worst = NaN, isDerived = True \<rparr>"
    using assms by (simp add: calcDerivedCosts_def Let_def)
  have mult: "Number (nullish v (JNum (Fin 1))) = spec_multiplier v" for v
    by (simp add: nullish_def spec_multiplier_def)
  have base: "orZero (Number (baseCost row)) = spec_baseCost row"
    by (simp add: orZero_cases spec_baseCost_def spec_coerce_def)
  have present: "calcDerivedCosts table row = spec_derived f row"
    if "table (confidenceFactor row) = Some f" for f
    using assms that
    by (simp add: calcDerivedCosts_def Let_def mult base spec_derived_def)
  have zero: "spec_derived f row = \<lparr> best = Fin 0, ml = Fin 0, worst = Fin 0, isDerived = True \<rparr>"
    if "spec_baseCost row = Fin 0" and "isFinite (spec_multiplier (f_best f))"
      and "isFinite (spec_multiplier (f_most_likely f))"
      and "isFinite (spec_multiplier (f_worst f))" for f
    using that by (simp add: spec_derived_def jsmul_zero_finite)
  show ?thesis
    using absent present zero by simp
qed

theorem calcDerivedCosts_by_factor_witness:
  "calcDerivedCosts (map_of sampleTable) (manualItem \<lparr> confidenceFactor := ''Realistic'' \<rparr>)
     = \<lparr> best = Fin 225, ml = Fin 250, worst = Fin 300, isDerived = True \<rparr>
   \<and> calcDerivedCosts (map_of sampleTable)
       (manualItem \<lparr> confidenceFactor := ''Realistic'', baseCost := JStr ''n/a'' \<rparr>)
     = \<lparr> best = Fin 0, ml = Fin 0, worst = Fin 0, isDerived = True \<rparr>
   \<and> calcDerivedCosts (map_of sampleTable) (manualItem \<lparr> confidenceFactor := ''Target'' \<rparr>)
     = \<lparr> best = NaN, ml = NaN, worst = NaN, isDerived = True \<rparr>"
proof -
  let ?t = "map_of sampleTable"
  let ?r1 = "manualItem \<lparr> confidenceFactor := ''Realistic'' \<rparr>"
  let ?r2 = "manualItem \<lparr> confidenceFactor := ''Realistic'', baseCost := JStr ''n/a'' \<rparr>"
  let ?r3 = "manualItem \<lparr> confidenceFactor := ''Target'' \<rparr>"
  have n1: "\<not> isUserDefinedFactor (confidenceFactor ?r1)" by code_simp
  have n2: "\<not> isUserDefinedFactor (confidenceFactor ?r2)" by code_simp
  have n3: "\<not> isUserDefinedFactor (confidenceFactor ?r3)" by code_simp
  have l1: "?t (confidenceFactor ?r1) = Some realisticEntry"
    by (simp add: sampleTable_def)
  have l2: "?t (confidenceFactor ?r2) = Some realisticEntry"
    by (simp add: sampleTable_def)
  have l3: "?t (confidenceFactor ?r3) = None"
    by (simp add: sampleTable_def)
  have v1: "spec_derived realisticEntry ?r1
              = \<lparr> best = Fin 225, ml = Fin 250, worst = Fin 300, isDerived = True \<rparr>"
    by code_simp
  have z2: "spec_baseCost ?r2 = Fin 0
              \<and> isFinite (spec_multiplier (f_best realisticEntry))
              \<and> isFinite (spec_multiplier (f_most_likely realisticEntry))
              \<and> isFinite (spec_multiplier (f_worst realisticEntry))"
    by code_simp
  from calcDerivedCosts_by_factor [OF n1, of ?t] l1 v1
    calcDerivedCosts_by_factor [OF n2, of ?t] l2 z2
    calcDerivedCosts_by_factor [OF n3, of ?t] l3
  show ?thesis by metis
qed

subsection \<open>Results after an input changes\<close>

lemma reset_on_other_input_events:
  assumes "mutatesInputs e" and "\<forall>v. e \<noteq> SetIterations v" and "\<forall>v. e \<noteq> SetSeed v"
  shows "results (step s e) = None \<and> sensitivity (step s e) = []"
  using assms by (cases e) (simp_all add: resetResults_def)

text \<open>
  C2 at a failing input. After a completed run, editing the iterations or the seed changes the
  setting and leaves the stored result and the sensitivity rows of the earlier run in place.
\<close>

theorem settings_edit_keeps_results:
  "iterations (step afterRun (SetIterations ''100'')) \<noteq> iterations afterRun
   \<and> results (step afterRun (SetIterations ''100'')) = resp_results sampleResponse
   \<and> results (step afterRun (SetIterations ''100'')) \<noteq> None
   \<and> sensitivity (step afterRun (SetIterations ''100'')) \<noteq> []
   \<and> seed (step afterRun (SetSeed ''7'')) \<noteq> seed afterRun
   \<and> results (step afterRun (SetSeed ''7'')) \<noteq> None
   \<and> sensitivity (step afterRun (SetSeed ''7'')) \<noteq> []"
  by (simp add: afterRun_def run_def sampleResponse_def initialState_def resetResults_def)

subsection \<open>Sensitivity tiers\<close>

text \<open>
  What \<open>groupedSensitivity\<close> computes: the sort yields the rows in descending order, each tier
  holds at most six of them, in that order, all within the bounds of the tier, and all the rows
  within the bounds when there are at most six.
\<close>

lemma absRhoOrZero_not_NaN: "absRhoOrZero x \<noteq> NaN"
  by (simp add: absRhoOrZero_def orZero_def)

lemma zero_less_toDouble: "jsless (Fin 0) (toDouble q) \<longleftrightarrow> 0 < q"
  by (auto simp add: toDouble_def overflowBound_def)

lemma comparator_sign:
  assumes "a \<noteq> NaN" and "b \<noteq> NaN"
  shows "jsless (Fin 0) (jssub b a) \<longleftrightarrow> jsless a b"
  using assms by (cases a; cases b) (simp_all add: jssub_def zero_less_toDouble)

lemma jsge_total: "a \<noteq> NaN \<Longrightarrow> b \<noteq> NaN \<Longrightarrow> \<not> jsless a b \<Longrightarrow> jsge a b"
  by (cases a; cases b) (auto simp add: jsge_def jsle_def)

lemma jsless_imp_jsge: "jsless a b \<Longrightarrow> jsge b a"
  by (cases a; cases b) (auto simp add: jsge_def jsle_def)

lemma jsge_trans: "jsge a b \<Longrightarrow> jsge b c \<Longrightarrow> jsge a c"
  by (cases a; cases b; cases c) (auto simp add: jsge_def jsle_def)

lemma set_insertBy: "set (insertBy cmp x ys) = insert x (set ys)"
  by (induction ys) auto

lemma mset_insertBy: "mset (insertBy cmp x ys) = add_mset x (mset ys)"
  by (induction ys) auto

lemma mset_sortBy: "mset (sortBy cmp xs) = mset xs"
  by (induction xs) (simp_all add: sortBy_def mset_insertBy)

lemma set_sortBy: "set (sortBy cmp xs) = set xs"
  using mset_sortBy [of cmp xs] by (metis set_mset_mset)

lemma insertBy_descending:
  "descendingByAbsRho ys \<Longrightarrow> descendingByAbsRho (insertBy byAbsRhoDesc x ys)"
proof (induction ys)
  case Nil
  then show ?case by (simp add: descendingByAbsRho_def)
next
  case (Cons y ys)
  have sign: "jsless (Fin 0) (byAbsRhoDesc x y) \<longleftrightarrow> jsless (absRhoOrZero x) (absRhoOrZero y)"
    by (simp add: byAbsRhoDesc_def comparator_sign absRhoOrZero_not_NaN)
  show ?case
  proof (cases "jsless (absRhoOrZero x) (absRhoOrZero y)")
    case True
    then have "jsge (absRhoOrZero y) (absRhoOrZero x)" by (rule jsless_imp_jsge)
    with Cons True sign show ?thesis
      by (auto simp add: descendingByAbsRho_def set_insertBy)
  next
    case False
    then have xy: "jsge (absRhoOrZero x) (absRhoOrZero y)"
      by (simp add: jsge_total absRhoOrZero_not_NaN)
    then have "\<forall>z \<in> set ys. jsge (absRhoOrZero y) (absRhoOrZero z)
                 \<longrightarrow> jsge (absRhoOrZero x) (absRhoOrZero z)"
      by (blast intro: jsge_trans)
    with Cons.prems False sign xy show ?thesis
      by (auto simp add: descendingByAbsRho_def)
  qed
qed

lemma sortBy_descending: "descendingByAbsRho (sortBy byAbsRhoDesc xs)"
proof (induction xs)
  case Nil
  then show ?case by (simp add: sortBy_def descendingByAbsRho_def)
next
  case (Cons x xs)
  then show ?case
    using insertBy_descending [of "sortBy byAbsRhoDesc xs" x] by (simp add: sortBy_def)
qed

lemma descending_filter: "descendingByAbsRho xs \<Longrightarrow> descendingByAbsRho (filter P xs)"
  by (simp add: descendingByAbsRho_def sorted_wrt_filter)

lemma descending_take: "descendingByAbsRho xs \<Longrightarrow> descendingByAbsRho (take n xs)"
  by (simp add: descendingByAbsRho_def sorted_wrt_take)

lemma tier_descending: "descendingByAbsRho (take n (filter P (sortBy byAbsRhoDesc rows)))"
  by (intro descending_take descending_filter sortBy_descending)

lemma tier_members:
  assumes "x \<in> set (take n (filter P (sortBy cmp rows)))"
  shows "x \<in> set rows \<and> P x"
proof -
  from assms have "x \<in> set (filter P (sortBy cmp rows))" by (rule in_set_takeD)
  then show ?thesis by (simp add: set_sortBy)
qed

lemma tier_complete:
  assumes "length (filter P rows) \<le> n"
  shows "mset (take n (filter P (sortBy cmp rows))) = mset (filter P rows)"
proof -
  have "mset (filter P (sortBy cmp rows)) = mset (filter P rows)"
    by (simp add: mset_sortBy)
  moreover from this have "length (filter P (sortBy cmp rows)) = length (filter P rows)"
    by (metis size_mset)
  ultimately show ?thesis using assms by simp
qed

lemma tiers_unfold:
  "dominant (groupedSensitivity rows)
     = take 6 (filter (\<lambda>x. jsge (absRhoOrZero x) (Fin (30 / 100))) (sortBy byAbsRhoDesc rows))"
  "moderate (groupedSensitivity rows)
     = take 6 (filter (\<lambda>x. jsge (absRhoOrZero x) (Fin (15 / 100))
                            \<and> jsless (absRhoOrZero x) (Fin (30 / 100)))
                 (sortBy byAbsRhoDesc rows))"
  by (simp_all add: groupedSensitivity_def Let_def MAX_PER_GROUP_def DOMINANT_MIN_def
      MODERATE_MIN_def)

lemma groupedSensitivity_tiers:
  "descendingByAbsRho (dominant (groupedSensitivity rows))
   \<and> descendingByAbsRho (moderate (groupedSensitivity rows))
   \<and> length (dominant (groupedSensitivity rows)) \<le> 6
   \<and> length (moderate (groupedSensitivity rows)) \<le> 6
   \<and> (\<forall>x \<in> set (dominant (groupedSensitivity rows)).
         x \<in> set rows \<and> jsge (absRhoOrZero x) (Fin (30 / 100)))
   \<and> (\<forall>x \<in> set (moderate (groupedSensitivity rows)).
         x \<in> set rows \<and> jsge (absRhoOrZero x) (Fin (15 / 100))
         \<and> jsless (absRhoOrZero x) (Fin (30 / 100)))
   \<and> (length (filter (\<lambda>x. jsge (absRhoOrZero x) (Fin (30 / 100))) rows) \<le> 6 \<longrightarrow>
         mset (dominant (groupedSensitivity rows))
           = mset (filter (\<lambda>x. jsge (absRhoOrZero x) (Fin (30 / 100))) rows))
   \<and> (length (filter (\<lambda>x. jsge (absRhoOrZero x) (Fin (15 / 100))
                           \<and> jsless (absRhoOrZero x) (Fin (30 / 100))) rows) \<le> 6 \<longrightarrow>
         mset (moderate (groupedSensitivity rows))
           = mset (filter (\<lambda>x. jsge (absRhoOrZero x) (Fin (15 / 100))
                               \<and> jsless (absRhoOrZero x) (Fin (30 / 100))) rows))"
  unfolding tiers_unfold
  by (intro conjI ballI impI tier_descending tier_complete length_take [THEN ord_eq_le_trans] min.cobounded2)
    (auto dest: tier_members)

text \<open>On the five rows of the example, in any order, it gives the two tiers of the example.\<close>

lemma jsge_antisym: "jsge a b \<Longrightarrow> jsge b a \<Longrightarrow> a = b"
  by (cases a; cases b) (auto simp add: jsge_def jsle_def)

lemma jsge_refl: "a \<noteq> NaN \<Longrightarrow> jsge a a"
  by (simp add: jsge_def jsle_def)

lemma descending_head_max:
  assumes "descendingByAbsRho (x # xs)" and "z \<in> set (x # xs)"
  shows "jsge (absRhoOrZero x) (absRhoOrZero z)"
  using assms by (auto simp add: descendingByAbsRho_def jsge_refl absRhoOrZero_not_NaN)

lemma descending_unique:
  assumes "descendingByAbsRho xs" and "descendingByAbsRho ys" and "mset xs = mset ys"
    and "inj_on absRhoOrZero (set xs)"
  shows "xs = ys"
  using assms
proof (induction xs arbitrary: ys)
  case Nil
  then show ?case by simp
next
  case (Cons x xs)
  from Cons.prems(3) obtain y ys' where ys: "ys = y # ys'"
    by (cases ys) auto
  have sets: "set (x # xs) = set (y # ys')"
    using Cons.prems(3) ys by (metis set_mset_mset)
  have "jsge (absRhoOrZero x) (absRhoOrZero y)"
    using descending_head_max [OF Cons.prems(1)] sets by auto
  moreover have "jsge (absRhoOrZero y) (absRhoOrZero x)"
    using descending_head_max [of y ys' x] Cons.prems(2) ys sets by auto
  ultimately have "absRhoOrZero x = absRhoOrZero y"
    by (rule jsge_antisym)
  moreover have "y \<in> set (x # xs)"
    using sets by auto
  ultimately have xy: "x = y"
    using Cons.prems(4) by (auto dest: inj_onD)
  have "xs = ys'"
  proof (rule Cons.IH)
    show "descendingByAbsRho xs"
      using Cons.prems(1) by (simp add: descendingByAbsRho_def)
    show "descendingByAbsRho ys'"
      using Cons.prems(2) ys by (simp add: descendingByAbsRho_def)
    show "mset xs = mset ys'"
      using Cons.prems(3) ys xy by simp
    show "inj_on absRhoOrZero (set xs)"
      using Cons.prems(4) by (auto intro: inj_on_subset)
  qed
  with xy ys show ?case by simp
qed

lemma grouped_sample_any_order:
  assumes "mset rows = mset (map sensRow [5 / 10, 31 / 100, 29 / 100, 16 / 100, 1 / 10])"
  shows "dominant (groupedSensitivity rows) = map sensRow [5 / 10, 31 / 100]
       \<and> moderate (groupedSensitivity rows) = map sensRow [29 / 100, 16 / 100]"
proof -
  let ?sample = "map sensRow [5 / 10, 31 / 100, 29 / 100, 16 / 100, 1 / 10]"
  have key: "absRhoOrZero (sensRow v) = (if v = 0 then Fin 0 else Fin v)" for v
    by (simp add: absRhoOrZero_def sensRow_def orZero_def)
  have d: "descendingByAbsRho ?sample"
    by (simp add: descendingByAbsRho_def key jsge_def jsle_def)
  have "distinct (map absRhoOrZero ?sample)"
    by (simp add: key)
  then have inj: "inj_on absRhoOrZero (set ?sample)"
    by (simp only: distinct_map)
  have "?sample = sortBy byAbsRhoDesc rows"
  proof (rule descending_unique [OF d sortBy_descending _ inj])
    show "mset ?sample = mset (sortBy byAbsRhoDesc rows)"
      using assms by (simp only: mset_sortBy)
  qed
  then have sorted: "sortBy byAbsRhoDesc rows = ?sample" by simp
  show ?thesis
    unfolding tiers_unfold sorted
    by (simp add: key jsge_def jsle_def)
qed


text \<open>
  C1 at a failing input. The tables rendered keep the order of the rows received and cut the
  tiers at 8 and 10 rows, where \<open>groupedSensitivity\<close> sorts and cuts both at 6.
\<close>

theorem rendered_tiers_keep_input_order:
  "map abs_rho (renderedDom (map sensRow [31 / 100, 5 / 10, 29 / 100, 16 / 100, 1 / 10]))
     = [JNum (Fin (31 / 100)), JNum (Fin (5 / 10))]
   \<and> map abs_rho (dominant (groupedSensitivity
         (map sensRow [31 / 100, 5 / 10, 29 / 100, 16 / 100, 1 / 10])))
     = [JNum (Fin (5 / 10)), JNum (Fin (31 / 100))]
   \<and> map abs_rho (renderedMod (map sensRow [16 / 100, 5 / 10, 29 / 100, 31 / 100, 1 / 10]))
     = [JNum (Fin (16 / 100)), JNum (Fin (29 / 100))]
   \<and> length (renderedDom (replicate 8 (sensRow (1 / 2)))) = 8
   \<and> length (dominant (groupedSensitivity (replicate 8 (sensRow (1 / 2))))) = 6"
  by code_simp

subsection \<open>Ordering checks of the validation engine\<close>

lemma cbsIssues_rows: "iss \<in> set (cbsIssues mode i x) \<Longrightarrow> \<exists>r. iss = CbsIssue (Suc i) r"
  by (auto simp add: cbsIssues_def pushIf_def split: if_splits)

lemma riskIssues_rows: "iss \<in> set (riskIssues i r) \<Longrightarrow> \<exists>q. iss = RiskIssue (Suc i) q"
  by (auto simp add: riskIssues_def pushIf_def Let_def split: if_splits)

lemma zip_upt_nth: "zip [0 ..< length xs] xs = map (\<lambda>i. (i, xs ! i)) [0 ..< length xs]"
  by (rule nth_equalityI) simp_all

lemma set_indexed_concat:
  "set (concat (map (\<lambda>(i, x). f i x) (zip [0 ..< length xs] xs)))
     = (\<Union>k \<in> {..< length xs}. set (f k (xs ! k)))"
  by (auto simp add: zip_upt_nth comp_def)

text \<open>The CBS issues reported for a row are the ones its own item gives rise to.\<close>

lemma validation_cbs_row:
  assumes "k < length (cbsItems s)"
  shows "CbsIssue (k + 1) r \<in> set (validationIssues s)
           \<longleftrightarrow> CbsIssue (k + 1) r \<in> set (cbsIssues (correlationMode s) k (cbsItems s ! k))"
proof -
  have "CbsIssue (k + 1) r \<in> set (validationIssues s)
          \<longleftrightarrow> (\<exists>j < length (cbsItems s).
                 CbsIssue (k + 1) r \<in> set (cbsIssues (correlationMode s) j (cbsItems s ! j)))"
    unfolding validationIssues_def Let_def set_append set_indexed_concat
    by (auto simp add: pushIf_def dest: riskIssues_rows)
  also have "\<dots> \<longleftrightarrow> CbsIssue (k + 1) r \<in> set (cbsIssues (correlationMode s) k (cbsItems s ! k))"
  proof
    assume "\<exists>j < length (cbsItems s).
              CbsIssue (k + 1) r \<in> set (cbsIssues (correlationMode s) j (cbsItems s ! j))"
    then obtain j where j: "j < length (cbsItems s)"
      "CbsIssue (k + 1) r \<in> set (cbsIssues (correlationMode s) j (cbsItems s ! j))"
      by blast
    from cbsIssues_rows [OF j(2)] have "j = k" by simp
    with j(2) show "CbsIssue (k + 1) r \<in> set (cbsIssues (correlationMode s) k (cbsItems s ! k))"
      by simp
  next
    assume "CbsIssue (k + 1) r \<in> set (cbsIssues (correlationMode s) k (cbsItems s ! k))"
    with assms show "\<exists>j < length (cbsItems s).
              CbsIssue (k + 1) r \<in> set (cbsIssues (correlationMode s) j (cbsItems s ! j))"
      by blast
  qed
  finally show ?thesis .
qed

text \<open>
  Each of the two ordering issues of an item in the user-defined mode depends on its own pair
  of costs only.
\<close>

lemma ordering_issues_by_pair:
  assumes "k < length (cbsItems s)"
    and "toLowerCase (confidenceFactor (cbsItems s ! k)) = ''user defined''"
  shows "(CbsIssue (k + 1) BestAboveMostLikely \<in> set (validationIssues s)
            \<longleftrightarrow> isFinite (Number (bestCaseCost (cbsItems s ! k)))
                \<and> isFinite (Number (mostLikelyCost (cbsItems s ! k)))
                \<and> jsgreater (Number (bestCaseCost (cbsItems s ! k)))
                      (Number (mostLikelyCost (cbsItems s ! k))))
       \<and> (CbsIssue (k + 1) MostLikelyAboveWorst \<in> set (validationIssues s)
            \<longleftrightarrow> isFinite (Number (mostLikelyCost (cbsItems s ! k)))
                \<and> isFinite (Number (worstCaseCost (cbsItems s ! k)))
                \<and> jsgreater (Number (mostLikelyCost (cbsItems s ! k)))
                      (Number (worstCaseCost (cbsItems s ! k))))"
  unfolding validation_cbs_row [OF assms(1)]
  using assms(2)
  by (auto simp add: cbsIssues_def pushIf_def jsgreater_def)

text \<open>
  C6. In the session of the form where the first item is set to the user-defined mode, best
  case 100 and most likely 50 are typed and the worst case is never entered, the worst case of
  the item is null and the issues reported are "Worst case is required", "Best case must be <=
  Most likely" and "Most likely must be <= Worst case": the second ordering issue is reported
  without a worst case, because the ordering test reads null as 0.
\<close>

theorem blank_worst_case_reported_misordered:
  "formRun initialState blankWorstSession
   \<and> confidenceFactor (cbsItems (run initialState blankWorstSession) ! 0) = ''User defined''
   \<and> bestCaseCost (cbsItems (run initialState blankWorstSession) ! 0) = JStr ''100''
   \<and> mostLikelyCost (cbsItems (run initialState blankWorstSession) ! 0) = JStr ''50''
   \<and> worstCaseCost (cbsItems (run initialState blankWorstSession) ! 0) = JNull
   \<and> validationIssues (run initialState blankWorstSession)
       = [CbsIssue 1 WorstRequired, CbsIssue 1 BestAboveMostLikely,
          CbsIssue 1 MostLikelyAboveWorst]"
  by code_simp

theorem blank_worst_case_reported_misordered_witness:
  "CbsIssue 1 MostLikelyAboveWorst \<in> set (validationIssues (run initialState blankWorstSession))"
  using blank_worst_case_reported_misordered by simp

subsection \<open>Risk import without a mandatory column\<close>

lemma joinWith_names_each: "x \<in> set xs \<Longrightarrow> sublist x (joinWith sep xs)"
proof (induction sep xs rule: joinWith.induct)
  case (1 sep)
  then show ?case by simp
next
  case (2 sep y)
  then show ?case by simp
next
  case (3 sep y z zs)
  show ?case
  proof (cases "x = y")
    case True
    then show ?thesis by simp
  next
    case False
    with 3 have "sublist x (joinWith sep (z # zs))" by simp
    then have "sublist x ((y @ sep) @ joinWith sep (z # zs))"
      by (simp only: sublist_append) simp
    then show ?thesis by simp
  qed
qed

lemma missingHeaders_members:
  "n = None \<Longrightarrow> ''name (or risk)'' \<in> set (missingHeaders n p l m h)"
  "p = None \<Longrightarrow> ''probability (or p)'' \<in> set (missingHeaders n p l m h)"
  "l = None \<Longrightarrow> ''lowCost (or low)'' \<in> set (missingHeaders n p l m h)"
  "m = None \<Longrightarrow> ''mostLikelyCost (or mostLikely/mode)'' \<in> set (missingHeaders n p l m h)"
  "h = None \<Longrightarrow> ''highCost (or high)'' \<in> set (missingHeaders n p l m h)"
  by (simp_all add: missingHeaders_def)

lemma missingHeaders_nonempty:
  "n = None \<or> p = None \<or> l = None \<or> m = None \<or> h = None \<Longrightarrow> missingHeaders n p l m h \<noteq> []"
  by (auto simp add: missingHeaders_def)

text \<open>
  C7. For a text with a header line that leaves at least one of the five mandatory risk
  columns unresolved, the parser returns no risk and exactly one warning, and the text of the
  warning contains the label of every unresolved column.
\<close>

theorem parseRisksCsv_missing_headers:
  assumes "normaliseLines text \<noteq> []"
    and "findIdx (headerOf text) [''name'', ''risk''] = None
         \<or> findIdx (headerOf text) [''probability'', ''p''] = None
         \<or> findIdx (headerOf text) [''lowcost'', ''low''] = None
         \<or> findIdx (headerOf text) [''mostlikelycost'', ''mostlikely'', ''mode''] = None
         \<or> findIdx (headerOf text) [''highcost'', ''high''] = None"
  shows "\<exists>w. parseRisksCsv text = ([], [WText w])
           \<and> (findIdx (headerOf text) [''name'', ''risk''] = None
                \<longrightarrow> sublist ''name (or risk)'' w)
           \<and> (findIdx (headerOf text) [''probability'', ''p''] = None
                \<longrightarrow> sublist ''probability (or p)'' w)
           \<and> (findIdx (headerOf text) [''lowcost'', ''low''] = None
                \<longrightarrow> sublist ''lowCost (or low)'' w)
           \<and> (findIdx (headerOf text) [''mostlikelycost'', ''mostlikely'', ''mode''] = None
                \<longrightarrow> sublist ''mostLikelyCost (or mostLikely/mode)'' w)
           \<and> (findIdx (headerOf text) [''highcost'', ''high''] = None
                \<longrightarrow> sublist ''highCost (or high)'' w)"
proof -
  let ?n = "findIdx (headerOf text) [''name'', ''risk'']"
  let ?p = "findIdx (headerOf text) [''probability'', ''p'']"
  let ?l = "findIdx (headerOf text) [''lowcost'', ''low'']"
  let ?m = "findIdx (headerOf text) [''mostlikelycost'', ''mostlikely'', ''mode'']"
  let ?h = "findIdx (headerOf text) [''highcost'', ''high'']"
  let ?missing = "missingHeaders ?n ?p ?l ?m ?h"
  let ?w = "''Missing required headers: '' @ joinWith '', '' ?missing"
  have nonempty: "?missing \<noteq> []"
    using assms(2) by (rule missingHeaders_nonempty)
  have result: "parseRisksCsv text = ([], [WText ?w])"
    using assms(1) nonempty by (simp add: parseRisksCsv_def Let_def)
  have named: "sublist x ?w" if "x \<in> set ?missing" for x
  proof -
    from that have "sublist x (joinWith '', '' ?missing)" by (rule joinWith_names_each)
    then show ?thesis by (simp only: sublist_append) simp
  qed
  have "?n = None \<longrightarrow> sublist ''name (or risk)'' ?w"
    by (rule impI, rule named, erule missingHeaders_members(1))
  moreover have "?p = None \<longrightarrow> sublist ''probability (or p)'' ?w"
    by (rule impI, rule named, erule missingHeaders_members(2))
  moreover have "?l = None \<longrightarrow> sublist ''lowCost (or low)'' ?w"
    by (rule impI, rule named, erule missingHeaders_members(3))
  moreover have "?m = None \<longrightarrow> sublist ''mostLikelyCost (or mostLikely/mode)'' ?w"
    by (rule impI, rule named, erule missingHeaders_members(4))
  moreover have "?h = None \<longrightarrow> sublist ''highCost (or high)'' ?w"
    by (rule impI, rule named, erule missingHeaders_members(5))
  ultimately show ?thesis
    using result by (intro exI [of _ ?w] conjI)
qed


theorem parseRisksCsv_missing_headers_witness:
  "\<exists>w. parseRisksCsv noProbabilityCsv = ([], [WText w]) \<and> sublist ''probability (or p)'' w"
proof -
  have a: "normaliseLines noProbabilityCsv \<noteq> []"
    by code_simp
  have b: "findIdx (headerOf noProbabilityCsv) [''probability'', ''p''] = None"
    by code_simp
  from parseRisksCsv_missing_headers [OF a] b
  show ?thesis by blast
qed

subsection \<open>CBS import with a three-point trio\<close>

lemma trim_Nil: "trim [] = []"
  by (simp add: trim_def)

lemma toNumOrNull_spec:
  "toNumOrNull v = (if spec_parsesFinite v then spec_cellValue v else JNull)"
  by (cases v) (simp_all add: toNumOrNull_def spec_parsesFinite_def spec_cellValue_def Let_def trim_Nil)

lemma isFiniteNumber_toNumOrNull: "isFiniteNumber (toNumOrNull v) \<longleftrightarrow> spec_parsesFinite v"
  by (cases v) (simp_all add: toNumOrNull_def spec_parsesFinite_def Let_def trim_Nil)

lemma number_toNumOrNull:
  "spec_parsesFinite v \<Longrightarrow> JNum (Number (toNumOrNull v)) = spec_cellValue v"
  by (cases v) (simp_all add: toNumOrNull_def spec_parsesFinite_def spec_cellValue_def Let_def)

lemma cbsRowsA_keeps_first:
  assumes "j < length ls"
    and "lineName n (ls ! j) \<noteq> []"
    and "toLowerCase (lineName n (ls ! j)) \<notin> set seen"
    and "\<forall>j' < j. toLowerCase (lineName n (ls ! j')) \<noteq> toLowerCase (lineName n (ls ! j))"
  shows "cbsRowOf (lineName n (ls ! j)) bi li mi hi (splitRow (ls ! j))
           \<in> set (cbsRowsA n bi li mi hi seen ls)"
  using assms
proof (induction ls arbitrary: seen j)
  case Nil
  then show ?case by simp
next
  case (Cons l ls)
  show ?case
  proof (cases j)
    case 0
    with Cons.prems show ?thesis
      by (simp add: Let_def lineName_def)
  next
    case (Suc j')
    with Cons.prems have differs:
      "toLowerCase (lineName n l) \<noteq> toLowerCase (lineName n (ls ! j'))"
      by auto
    from Suc Cons.prems have later:
      "\<forall>i < j'. toLowerCase (lineName n (ls ! i)) \<noteq> toLowerCase (lineName n (ls ! j'))"
      by auto
    from Suc Cons.prems have j': "j' < length ls" "lineName n (ls ! j') \<noteq> []"
      "toLowerCase (lineName n (ls ! j')) \<notin> set seen"
      by auto
    have a: "cbsRowOf (lineName n (ls ! j')) bi li mi hi (splitRow (ls ! j'))
               \<in> set (cbsRowsA n bi li mi hi seen ls)"
      using Cons.IH [OF j'(1) j'(2) j'(3) later] .
    have "toLowerCase (lineName n (ls ! j')) \<notin> set (toLowerCase (lineName n l) # seen)"
      using differs j'(3) by auto
    then have b: "cbsRowOf (lineName n (ls ! j')) bi li mi hi (splitRow (ls ! j'))
               \<in> set (cbsRowsA n bi li mi hi (toLowerCase (lineName n l) # seen) ls)"
      using Cons.IH [OF j'(1) j'(2) _ later] by blast
    from a b Suc show ?thesis
      by (simp add: Let_def lineName_def)
  qed
qed

lemma parseCbsCsv_with_name_column:
  assumes "normaliseLines text \<noteq> []"
    and "findIdx (headerOf text) [''name'', ''cbs'', ''cbsname''] = Some n"
  shows "parseCbsCsv text =
           cbsRowsA n (findIdx (headerOf text) [''basecost'', ''base_cost'', ''cost'', ''base''])
             (findIdx (headerOf text) [''low'', ''lowcost'', ''best'', ''bestcase'', ''min''])
             (findIdx (headerOf text)
                [''mostlikely'', ''most_likely'', ''mostlikelycost'', ''mode'', ''ml''])
             (findIdx (headerOf text) [''high'', ''highcost'', ''worst'', ''worstcase'', ''max''])
             [] (tl (normaliseLines text))"
  using assms by (simp only: parseCbsCsv_def Let_def if_False option.case)

lemma importedCbsItems_nth:
  "k < length rows \<Longrightarrow>
     importedCbsItems cfs rows ! k = cbsItemOfRow (defaultFactor cfs) k (rows ! k)"
  by (simp add: importedCbsItems_def)

lemma cbsItemOfRow_classifies:
  "cbs_name (cbsItemOfRow dflt k (cbsRowOf name (Some b) (Some l) (Some m) (Some h) cells)) = name
   \<and> (if spec_parsesFinite (cellAt cells b) \<and> spec_parsesFinite (cellAt cells l)
         \<and> spec_parsesFinite (cellAt cells m) \<and> spec_parsesFinite (cellAt cells h)
      then confidenceFactor (cbsItemOfRow dflt k (cbsRowOf name (Some b) (Some l) (Some m) (Some h) cells))
             = ''User defined''
         \<and> bestCaseCost (cbsItemOfRow dflt k (cbsRowOf name (Some b) (Some l) (Some m) (Some h) cells))
             = spec_cellValue (cellAt cells l)
         \<and> mostLikelyCost (cbsItemOfRow dflt k (cbsRowOf name (Some b) (Some l) (Some m) (Some h) cells))
             = spec_cellValue (cellAt cells m)
         \<and> worstCaseCost (cbsItemOfRow dflt k (cbsRowOf name (Some b) (Some l) (Some m) (Some h) cells))
             = spec_cellValue (cellAt cells h)
      else confidenceFactor (cbsItemOfRow dflt k (cbsRowOf name (Some b) (Some l) (Some m) (Some h) cells))
             = dflt
         \<and> bestCaseCost (cbsItemOfRow dflt k (cbsRowOf name (Some b) (Some l) (Some m) (Some h) cells))
             = JNull
         \<and> mostLikelyCost (cbsItemOfRow dflt k (cbsRowOf name (Some b) (Some l) (Some m) (Some h) cells))
             = JNull
         \<and> worstCaseCost (cbsItemOfRow dflt k (cbsRowOf name (Some b) (Some l) (Some m) (Some h) cells))
             = JNull)"
  by (simp add: cbsItemOfRow_def cbsRowOf_def Let_def isFiniteNumber_toNumOrNull
      number_toNumOrNull)

lemma step_cbs_import:
  "parseCbsCsv text \<noteq> [] \<Longrightarrow>
     cbsItems (step s (CbsCsvSelected text))
       = importedCbsItems (confidenceFactors s) (parseCbsCsv text)"
  by (simp add: Let_def resetResults_def)

text \<open>
  C10. For the import of a CBS file whose header resolves the name, the base cost and the three
  trio columns, every data line with a name, the first line of that name, yields an item of
  that name among the items of the session: when the base cost and the three trio cells parse
  as finite numbers the item is "User defined" with the trio as its manual fields, and
  otherwise it carries the default confidence factor and its three manual fields are null.
\<close>

theorem cbs_import_user_defined_rows:
  assumes "normaliseLines text \<noteq> []"
    and "findIdx (headerOf text) [''name'', ''cbs'', ''cbsname''] = Some n"
    and "findIdx (headerOf text) [''basecost'', ''base_cost'', ''cost'', ''base''] = Some b"
    and "findIdx (headerOf text) [''low'', ''lowcost'', ''best'', ''bestcase'', ''min''] = Some l"
    and "findIdx (headerOf text)
           [''mostlikely'', ''most_likely'', ''mostlikelycost'', ''mode'', ''ml''] = Some m"
    and "findIdx (headerOf text) [''high'', ''highcost'', ''worst'', ''worstcase'', ''max'']
           = Some h"
    and "j < length (tl (normaliseLines text))"
    and "cells = splitRow (tl (normaliseLines text) ! j)"
    and "lineName n (tl (normaliseLines text) ! j) \<noteq> []"
    and "\<forall>j' < j. toLowerCase (lineName n (tl (normaliseLines text) ! j'))
                    \<noteq> toLowerCase (lineName n (tl (normaliseLines text) ! j))"
    and "items = cbsItems (step s (CbsCsvSelected text))"
  shows "\<exists>k < length items.
           cbs_name (items ! k) = lineName n (tl (normaliseLines text) ! j)
         \<and> (if spec_parsesFinite (cellAt cells b) \<and> spec_parsesFinite (cellAt cells l)
               \<and> spec_parsesFinite (cellAt cells m) \<and> spec_parsesFinite (cellAt cells h)
            then confidenceFactor (items ! k) = ''User defined''
               \<and> bestCaseCost (items ! k) = spec_cellValue (cellAt cells l)
               \<and> mostLikelyCost (items ! k) = spec_cellValue (cellAt cells m)
               \<and> worstCaseCost (items ! k) = spec_cellValue (cellAt cells h)
            else confidenceFactor (items ! k) = defaultFactor (confidenceFactors s)
               \<and> bestCaseCost (items ! k) = JNull
               \<and> mostLikelyCost (items ! k) = JNull
               \<and> worstCaseCost (items ! k) = JNull)"
proof -
  let ?ls = "tl (normaliseLines text)"
  let ?row = "cbsRowOf (lineName n (?ls ! j)) (Some b) (Some l) (Some m) (Some h) cells"
  let ?cfs = "confidenceFactors s"
  have rows: "parseCbsCsv text = cbsRowsA n (Some b) (Some l) (Some m) (Some h) [] ?ls"
    using parseCbsCsv_with_name_column [OF assms(1,2)] assms(3-6) by simp
  have "?row \<in> set (parseCbsCsv text)"
    unfolding rows assms(8)
    by (rule cbsRowsA_keeps_first [OF assms(7) assms(9) _ assms(10)]) simp
  then obtain k where k: "k < length (parseCbsCsv text)" "parseCbsCsv text ! k = ?row"
    by (auto simp add: in_set_conv_nth)
  from k(1) have "parseCbsCsv text \<noteq> []" by auto
  then have items: "items = importedCbsItems ?cfs (parseCbsCsv text)"
    unfolding assms(11) by (rule step_cbs_import)
  have len: "length items = length (parseCbsCsv text)"
    unfolding items by (simp add: importedCbsItems_def)
  have item: "items ! k = cbsItemOfRow (defaultFactor ?cfs) k ?row"
    unfolding items using importedCbsItems_nth [OF k(1)] k(2) by simp
  show ?thesis
    using k(1) cbsItemOfRow_classifies [of "defaultFactor ?cfs" k "lineName n (?ls ! j)" b l m h cells]
    unfolding item [symmetric] len [symmetric] by blast
qed

theorem cbs_import_user_defined_rows_witness:
  "(\<exists>k < length (cbsItems (step initialState (CbsCsvSelected trioCsv))).
      cbs_name (cbsItems (step initialState (CbsCsvSelected trioCsv)) ! k) = ''A''
      \<and> confidenceFactor (cbsItems (step initialState (CbsCsvSelected trioCsv)) ! k)
          = ''User defined''
      \<and> bestCaseCost (cbsItems (step initialState (CbsCsvSelected trioCsv)) ! k) = JNum (Fin 90))
   \<and> (\<exists>k < length (cbsItems (step initialState (CbsCsvSelected trioCsv))).
      cbs_name (cbsItems (step initialState (CbsCsvSelected trioCsv)) ! k) = ''B''
      \<and> confidenceFactor (cbsItems (step initialState (CbsCsvSelected trioCsv)) ! k)
          = ''Realistic''
      \<and> bestCaseCost (cbsItems (step initialState (CbsCsvSelected trioCsv)) ! k) = JNull)"
proof -
  let ?ls = "tl (normaliseLines trioCsv)"
  define items where "items = cbsItems (step initialState (CbsCsvSelected trioCsv))"
  have a: "normaliseLines trioCsv \<noteq> []"
    by code_simp
  have n: "findIdx (headerOf trioCsv) [''name'', ''cbs'', ''cbsname''] = Some 0"
    by code_simp
  have b: "findIdx (headerOf trioCsv) [''basecost'', ''base_cost'', ''cost'', ''base''] = Some 1"
    by code_simp
  have l: "findIdx (headerOf trioCsv) [''low'', ''lowcost'', ''best'', ''bestcase'', ''min'']
             = Some 2"
    by code_simp
  have m: "findIdx (headerOf trioCsv)
             [''mostlikely'', ''most_likely'', ''mostlikelycost'', ''mode'', ''ml''] = Some 3"
    by code_simp
  have h: "findIdx (headerOf trioCsv) [''high'', ''highcost'', ''worst'', ''worstcase'', ''max'']
             = Some 4"
    by code_simp
  have j0: "0 < length ?ls" and j1: "1 < length ?ls"
    by code_simp+
  have name0: "lineName 0 (?ls ! 0) = ''A''" and name1: "lineName 0 (?ls ! 1) = ''B''"
    by code_simp+
  have first0: "\<forall>j' < 0. toLowerCase (lineName 0 (?ls ! j')) \<noteq> toLowerCase (lineName 0 (?ls ! 0))"
    by simp
  have "toLowerCase (lineName 0 (?ls ! 0)) \<noteq> toLowerCase (lineName 0 (?ls ! 1))"
    by code_simp
  then have first1:
    "\<forall>j' < 1. toLowerCase (lineName 0 (?ls ! j')) \<noteq> toLowerCase (lineName 0 (?ls ! 1))"
    by simp
  have ne0: "lineName 0 (?ls ! 0) \<noteq> []" and ne1: "lineName 0 (?ls ! 1) \<noteq> []"
    by code_simp+
  have full: "spec_parsesFinite (cellAt (splitRow (?ls ! 0)) 1)
      \<and> spec_parsesFinite (cellAt (splitRow (?ls ! 0)) 2)
      \<and> spec_parsesFinite (cellAt (splitRow (?ls ! 0)) 3)
      \<and> spec_parsesFinite (cellAt (splitRow (?ls ! 0)) 4)"
    by code_simp
  have low0: "spec_cellValue (cellAt (splitRow (?ls ! 0)) 2) = JNum (Fin 90)"
    by code_simp
  have partial: "\<not> spec_parsesFinite (cellAt (splitRow (?ls ! 1)) 2)"
    by code_simp
  have dflt: "defaultFactor (confidenceFactors initialState) = ''Realistic''"
    by code_simp
  from cbs_import_user_defined_rows [OF a n b l m h j0 refl ne0 first0 items_def] full low0 name0
  have first: "\<exists>k < length items.
      cbs_name (items ! k) = ''A''
      \<and> confidenceFactor (items ! k) = ''User defined''
      \<and> bestCaseCost (items ! k) = JNum (Fin 90)"
    by auto
  from cbs_import_user_defined_rows [OF a n b l m h j1 refl ne1 first1 items_def] partial name1 dflt
  have second: "\<exists>k < length items.
      cbs_name (items ! k) = ''B''
      \<and> confidenceFactor (items ! k) = ''Realistic''
      \<and> bestCaseCost (items ! k) = JNull"
    by auto
  from first second show ?thesis
    unfolding items_def by blast
qed

subsection \<open>Sequential identifiers\<close>

text \<open>Two sequential identifiers with one prefix are the same only for the same number.\<close>

lemma of_char_digit: "d < 10 \<Longrightarrow> (of_char (char_of (48 + d :: nat) :: char) :: nat) = 48 + d"
proof -
  assume "d < 10"
  then have "48 + d < 256" by simp
  then have "(48 + d) mod 256 = 48 + d" by (rule mod_less)
  then show ?thesis by (simp only: of_char_of)
qed

lemma char_of_digit_inj:
  assumes "a < 10" and "b < 10" and "(char_of (48 + a) :: char) = char_of (48 + b)"
  shows "a = (b :: nat)"
proof -
  from assms(3) have "(of_char (char_of (48 + a) :: char) :: nat) = of_char (char_of (48 + b) :: char)"
    by (rule arg_cong)
  then have "48 + a = 48 + b"
    by (simp only: of_char_digit [OF assms(1)] of_char_digit [OF assms(2)])
  then show ?thesis by (rule add_left_imp_eq)
qed

lemma showNat_small: "n < 10 \<Longrightarrow> showNat n = [char_of (48 + n)]"
  by (subst showNat.simps) simp

lemma showNat_large: "10 \<le> n \<Longrightarrow> showNat n = showNat (n div 10) @ [char_of (48 + n mod 10)]"
  by (subst showNat.simps) simp

lemma showNat_nonempty: "showNat n \<noteq> []"
proof (cases "n < 10")
  case True
  from showNat_small [OF True] show ?thesis by simp
next
  case False
  then have "10 \<le> n" by simp
  from showNat_large [OF this] show ?thesis by simp
qed

lemma showNat_length_small: "n < 10 \<Longrightarrow> length (showNat n) = 1"
proof -
  assume "n < 10"
  from showNat_small [OF this] show ?thesis by simp
qed

lemma showNat_length_large: "10 \<le> n \<Longrightarrow> 2 \<le> length (showNat n)"
proof -
  assume "10 \<le> n"
  from showNat_large [OF this]
  have "length (showNat n) = length (showNat (n div 10)) + 1" by simp
  moreover have "1 \<le> length (showNat (n div 10))"
    using showNat_nonempty [of "n div 10"] by (cases "showNat (n div 10)") simp_all
  ultimately show ?thesis by linarith
qed

lemma showNat_inj: "showNat n = showNat m \<Longrightarrow> n = m"
proof (induction n arbitrary: m rule: showNat.induct)
  case (1 n)
  consider "n < 10" "m < 10" | "n < 10" "10 \<le> m" | "10 \<le> n" "m < 10" | "10 \<le> n" "10 \<le> m"
    by linarith
  then show ?case
  proof cases
    case 1
    have "[char_of (48 + n) :: char] = [char_of (48 + m)]"
      using "1.prems" by (simp only: showNat_small [OF 1(1)] showNat_small [OF 1(2)])
    then have "(char_of (48 + n) :: char) = char_of (48 + m)"
      by (simp only: list.inject)
    with 1 show ?thesis by (rule char_of_digit_inj)
  next
    case 2
    from 2(1) have "length (showNat n) = 1" by (rule showNat_length_small)
    moreover from 2(2) have "2 \<le> length (showNat m)" by (rule showNat_length_large)
    ultimately show ?thesis using "1.prems" by simp
  next
    case 3
    from 3(2) have "length (showNat m) = 1" by (rule showNat_length_small)
    moreover from 3(1) have "2 \<le> length (showNat n)" by (rule showNat_length_large)
    ultimately show ?thesis using "1.prems" by simp
  next
    case 4
    have "showNat (n div 10) @ [char_of (48 + n mod 10)]
            = showNat (m div 10) @ [char_of (48 + m mod 10)]"
      using "1.prems" by (simp only: showNat_large [OF 4(1)] showNat_large [OF 4(2)])
    then have a: "showNat (n div 10) = showNat (m div 10)"
      and b: "(char_of (48 + n mod 10) :: char) = char_of (48 + m mod 10)"
      by (simp_all only: append1_eq_conv)
    from 4(1) have "\<not> n < 10" by simp
    from "1.IH" [OF this a] have d: "n div 10 = m div 10" .
    have "n mod 10 < 10" and "m mod 10 < 10" by simp_all
    from this b have e: "n mod 10 = m mod 10" by (rule char_of_digit_inj)
    have "n = 10 * (n div 10) + n mod 10" by simp
    also have "\<dots> = 10 * (m div 10) + m mod 10" by (simp only: d e)
    also have "\<dots> = m" by simp
    finally show ?thesis .
  qed
qed

lemma digit_char_not_zero:
  assumes "0 < d" and "d < 10"
  shows "(char_of (48 + d :: nat) :: char) \<noteq> CHR ''0''"
proof
  assume "(char_of (48 + d) :: char) = CHR ''0''"
  then have "(of_char (char_of (48 + d) :: char) :: nat) = of_char (CHR ''0'')"
    by (rule arg_cong)
  then have "48 + d = (48 :: nat)"
    unfolding of_char_digit [OF assms(2)] by simp
  with assms(1) show False by simp
qed

lemma showNat_hd_large: "10 \<le> n \<Longrightarrow> hd (showNat n) \<noteq> CHR ''0''"
proof (induction n rule: showNat.induct)
  case (1 n)
  have unfold: "showNat n = showNat (n div 10) @ [char_of (48 + n mod 10)]"
    using "1.prems" by (rule showNat_large)
  show ?case
  proof (cases "n div 10 < 10")
    case True
    from "1.prems" have pos: "0 < n div 10" by simp
    have "showNat n = [char_of (48 + n div 10), char_of (48 + n mod 10)]"
      unfolding unfold showNat_small [OF True] by simp
    then have "hd (showNat n) = char_of (48 + n div 10)" by simp
    with digit_char_not_zero [OF pos True] show ?thesis by simp
  next
    case False
    then have big: "10 \<le> n div 10" by simp
    from "1.prems" have "\<not> n < 10" by simp
    from "1.IH" [OF this big] have "hd (showNat (n div 10)) \<noteq> CHR ''0''" .
    moreover have "hd (showNat n) = hd (showNat (n div 10))"
      unfolding unfold using showNat_nonempty [of "n div 10"] by simp
    ultimately show ?thesis by simp
  qed
qed

lemma padded_small: "k < 10 \<Longrightarrow> padStart 2 (CHR ''0'') (showNat k) = CHR ''0'' # showNat k"
proof -
  assume "k < 10"
  from showNat_length_small [OF this] show ?thesis
    by (simp add: padStart_def numeral_2_eq_2)
qed

lemma padded_large: "10 \<le> k \<Longrightarrow> padStart 2 (CHR ''0'') (showNat k) = showNat k"
proof -
  assume "10 \<le> k"
  from showNat_length_large [OF this] show ?thesis
    by (simp add: padStart_def)
qed

lemma makeSequentialId_inj:
  assumes "makeSequentialId pre n = makeSequentialId pre m"
  shows "n = m"
proof -
  from assms have eq: "padStart 2 (CHR ''0'') (showNat n) = padStart 2 (CHR ''0'') (showNat m)"
    by (simp add: makeSequentialId_def)
  consider "n < 10" "m < 10" | "n < 10" "10 \<le> m" | "10 \<le> n" "m < 10" | "10 \<le> n" "10 \<le> m"
    by linarith
  then show ?thesis
  proof cases
    case 1
    from eq have "showNat n = showNat m"
      unfolding padded_small [OF 1(1)] padded_small [OF 1(2)] by simp
    then show ?thesis by (rule showNat_inj)
  next
    case 2
    from eq have "showNat m = CHR ''0'' # showNat n"
      unfolding padded_small [OF 2(1)] padded_large [OF 2(2)] by simp
    then have "hd (showNat m) = CHR ''0''" by simp
    with showNat_hd_large [OF 2(2)] show ?thesis by simp
  next
    case 3
    from eq have "showNat n = CHR ''0'' # showNat m"
      unfolding padded_large [OF 3(1)] padded_small [OF 3(2)] by simp
    then have "hd (showNat n) = CHR ''0''" by simp
    with showNat_hd_large [OF 3(1)] show ?thesis by simp
  next
    case 4
    from eq have "showNat n = showNat m"
      unfolding padded_large [OF 4(1)] padded_large [OF 4(2)] .
    then show ?thesis by (rule showNat_inj)
  qed
qed

subsection \<open>Rows of a risk file\<close>

lemma fixCost_finite: "isFinite (fst (fixCost rowNum val label))"
  by (simp add: fixCost_def)

lemma clamp_finite: "isFinite p \<Longrightarrow> isFinite (jsmin (Fin 1) (jsmax (Fin 0) p))"
  by (cases p) (simp_all add: jsmin_def jsmax_def)

lemma fst_of_row_branches:
  "fst (if c then (None, w) else if d then (Some a, w1) else (Some b, w2))
     = (if c then None else Some (if d then a else b))"
  by simp

text \<open>The risk a data line yields, without the warnings.\<close>

lemma fst_riskRow:
  "fst (riskRow n t p l m h rowNum line) =
     (let cells = splitRow line;
          name = trim (cellOrEmpty cells n);
          raw = (case t of None \<Rightarrow> [] | Some i \<Rightarrow> toLowerCase (trim (cellOrEmpty cells i)));
          riskType = (if raw = ''inherent'' \<or> raw = ''contingent'' then raw else ''contingent'');
          p0 = toNum (cellOrEmpty cells p);
          p1 = (if \<not> isFinite p0 then Fin 0 else p0);
          outside = (jsless p1 (Fin 0) \<or> jsgreater p1 (Fin 1));
          probability = (if outside then jsmin (Fin 1) (jsmax (Fin 0) p1) else p1);
          lo = fixCost rowNum (toNum (cellOrEmpty cells l)) ''lowCost'';
          mo = fixCost rowNum (toNum (cellOrEmpty cells m)) ''mostLikelyCost'';
          hi = fixCost rowNum (toNum (cellOrEmpty cells h)) ''highCost''
      in if name = [] then None
         else Some
           (if riskType = ''inherent''
            then \<lparr> pr_name = name, pr_riskType = riskType, pr_probability = probability,
                   pr_lowCost = Fin 0, pr_mostLikelyCost = Fin 0, pr_highCost = Fin 0 \<rparr>
            else \<lparr> pr_name = name, pr_riskType = riskType, pr_probability = probability,
                   pr_lowCost = fst lo, pr_mostLikelyCost = fst mo, pr_highCost = fst hi \<rparr>))"
  unfolding riskRow_def Let_def
  by (rule fst_of_row_branches)

lemma row_branches_skipped: "c \<Longrightarrow> (if c then None else Some (if d then a else b)) = None"
  by simp

lemma row_branches_first: "\<not> c \<Longrightarrow> d \<Longrightarrow> (if c then None else Some (if d then a else b)) = Some a"
  by simp

lemma row_branches_second:
  "\<not> c \<Longrightarrow> \<not> d \<Longrightarrow> (if c then None else Some (if d then a else b)) = Some b"
  by simp

lemma riskRow_outcome:
  "(lineName n line = [] \<and> fst (riskRow n t p l m h rowNum line) = None)
   \<or> (lineName n line \<noteq> []
      \<and> (case t of None \<Rightarrow> [] | Some i \<Rightarrow> toLowerCase (trim (cellOrEmpty (splitRow line) i)))
          = ''inherent''
      \<and> (\<exists>prob. isFinite prob
            \<and> fst (riskRow n t p l m h rowNum line)
                = Some \<lparr> pr_name = lineName n line, pr_riskType = ''inherent'',
                         pr_probability = prob, pr_lowCost = Fin 0, pr_mostLikelyCost = Fin 0,
                         pr_highCost = Fin 0 \<rparr>))
   \<or> (lineName n line \<noteq> []
      \<and> (case t of None \<Rightarrow> [] | Some i \<Rightarrow> toLowerCase (trim (cellOrEmpty (splitRow line) i)))
          \<noteq> ''inherent''
      \<and> (\<exists>prob lo mo hi. isFinite prob \<and> isFinite lo \<and> isFinite mo \<and> isFinite hi
            \<and> fst (riskRow n t p l m h rowNum line)
                = Some \<lparr> pr_name = lineName n line, pr_riskType = ''contingent'',
                         pr_probability = prob, pr_lowCost = lo, pr_mostLikelyCost = mo,
                         pr_highCost = hi \<rparr>))"
proof -
  define raw where
    "raw = (case t of None \<Rightarrow> [] | Some i \<Rightarrow> toLowerCase (trim (cellOrEmpty (splitRow line) i)))"
  define rt where
    "rt = (if raw = ''inherent'' \<or> raw = ''contingent'' then raw else ''contingent'')"
  define p0 where "p0 = toNum (cellOrEmpty (splitRow line) p)"
  define p1 where "p1 = (if \<not> isFinite p0 then Fin 0 else p0)"
  define prob where
    "prob = (if jsless p1 (Fin 0) \<or> jsgreater p1 (Fin 1)
             then jsmin (Fin 1) (jsmax (Fin 0) p1) else p1)"
  define lo where "lo = fst (fixCost rowNum (toNum (cellOrEmpty (splitRow line) l)) ''lowCost'')"
  define mo where
    "mo = fst (fixCost rowNum (toNum (cellOrEmpty (splitRow line) m)) ''mostLikelyCost'')"
  define hi where "hi = fst (fixCost rowNum (toNum (cellOrEmpty (splitRow line) h)) ''highCost'')"
  have "isFinite p1" by (simp add: p1_def)
  then have fp: "isFinite prob" by (simp add: prob_def clamp_finite)
  have fc: "isFinite lo" "isFinite mo" "isFinite hi"
    by (simp_all add: lo_def mo_def hi_def fixCost_finite)
  have rt: "rt = ''inherent'' \<longleftrightarrow> raw = ''inherent''"
    by (simp add: rt_def)
  have rt': "raw \<noteq> ''inherent'' \<Longrightarrow> rt = ''contingent''"
    by (simp add: rt_def)
  have eq: "fst (riskRow n t p l m h rowNum line) =
     (if lineName n line = [] then None
      else Some
        (if rt = ''inherent''
         then \<lparr> pr_name = lineName n line, pr_riskType = rt, pr_probability = prob,
                pr_lowCost = Fin 0, pr_mostLikelyCost = Fin 0, pr_highCost = Fin 0 \<rparr>
         else \<lparr> pr_name = lineName n line, pr_riskType = rt, pr_probability = prob,
                pr_lowCost = lo, pr_mostLikelyCost = mo, pr_highCost = hi \<rparr>))"
    unfolding fst_riskRow Let_def prob_def p1_def p0_def rt_def raw_def lo_def mo_def hi_def
      lineName_def ..
  show ?thesis
  proof (cases "lineName n line = []")
    case True
    then have "fst (riskRow n t p l m h rowNum line) = None"
      unfolding eq by (rule row_branches_skipped)
    with True show ?thesis by blast
  next
    case False
    show ?thesis
    proof (cases "raw = ''inherent''")
      case True
      then have r: "rt = ''inherent''" by (simp only: rt)
      with False have "fst (riskRow n t p l m h rowNum line) =
          Some \<lparr> pr_name = lineName n line, pr_riskType = rt, pr_probability = prob,
                 pr_lowCost = Fin 0, pr_mostLikelyCost = Fin 0, pr_highCost = Fin 0 \<rparr>"
        unfolding eq by (rule row_branches_first)
      with r fp False True show ?thesis
        unfolding raw_def by blast
    next
      case c: False
      then have r: "rt \<noteq> ''inherent''" by (simp add: rt)
      with False have "fst (riskRow n t p l m h rowNum line) =
          Some \<lparr> pr_name = lineName n line, pr_riskType = rt, pr_probability = prob,
                 pr_lowCost = lo, pr_mostLikelyCost = mo, pr_highCost = hi \<rparr>"
        unfolding eq by (rule row_branches_second)
      with rt' [OF c] fp fc False c show ?thesis
        unfolding raw_def by blast
    qed
  qed
qed

lemma riskRow_kept: "fst (riskRow n t p l m h rowNum line) \<noteq> None \<longleftrightarrow> lineName n line \<noteq> []"
  using riskRow_outcome [of n line t p l m h rowNum] by auto

lemma fixCost_fst_row: "fst (fixCost rowNum v label) = fst (fixCost 0 v label)"
  by (simp add: fixCost_def)

lemma fst_riskRow_row:
  "fst (riskRow n t p l m h rowNum line) = fst (riskRow n t p l m h 0 line)"
  unfolding fst_riskRow Let_def
  by (simp only: fixCost_fst_row [of rowNum])

lemma map_filter_rows:
  assumes "length ns = length ls"
  shows "List.map_filter fst (map (\<lambda>(rowNum, line). riskRow n t p l m h rowNum line) (zip ns ls))
           = map (\<lambda>line. the (fst (riskRow n t p l m h 0 line)))
               (filter (\<lambda>line. lineName n line \<noteq> []) ls)"
  using assms
proof (induction ns ls rule: list_induct2)
  case Nil
  then show ?case by simp
next
  case (Cons x xs y ys)
  have k: "fst (riskRow n t p l m h x y) = None \<longleftrightarrow> lineName n y = []"
    using riskRow_kept [of n t p l m h x y] by blast
  show ?case
  proof (cases "lineName n y = []")
    case True
    with k have "fst (riskRow n t p l m h x y) = None" by simp
    with True Cons.IH show ?thesis by simp
  next
    case False
    with k obtain r where r: "fst (riskRow n t p l m h x y) = Some r" by auto
    then have "fst (riskRow n t p l m h 0 y) = Some r" by (simp only: fst_riskRow_row [of _ _ _ _ _ _ x])
    with r False Cons.IH show ?thesis by simp
  qed
qed

lemma parseRisksCsv_kept:
  assumes "normaliseLines text \<noteq> []"
    and "missingHeaders (findIdx (headerOf text) [''name'', ''risk''])
           (findIdx (headerOf text) [''probability'', ''p''])
           (findIdx (headerOf text) [''lowcost'', ''low''])
           (findIdx (headerOf text) [''mostlikelycost'', ''mostlikely'', ''mode''])
           (findIdx (headerOf text) [''highcost'', ''high'']) = []"
  shows "fst (parseRisksCsv text) =
           map (\<lambda>line. the (fst (riskRow (the (findIdx (headerOf text) [''name'', ''risk'']))
                   (findIdx (headerOf text) [''risktype'', ''type''])
                   (the (findIdx (headerOf text) [''probability'', ''p'']))
                   (the (findIdx (headerOf text) [''lowcost'', ''low'']))
                   (the (findIdx (headerOf text) [''mostlikelycost'', ''mostlikely'', ''mode'']))
                   (the (findIdx (headerOf text) [''highcost'', ''high''])) 0 line)))
             (riskDataLines text)"
proof -
  have len: "length [1 ..< length (normaliseLines text)] = length (tl (normaliseLines text))"
    by simp
  from assms have "fst (parseRisksCsv text) =
      List.map_filter fst
        (map (\<lambda>(rowNum, line).
                riskRow (the (findIdx (headerOf text) [''name'', ''risk'']))
                   (findIdx (headerOf text) [''risktype'', ''type''])
                   (the (findIdx (headerOf text) [''probability'', ''p'']))
                   (the (findIdx (headerOf text) [''lowcost'', ''low'']))
                   (the (findIdx (headerOf text) [''mostlikelycost'', ''mostlikely'', ''mode'']))
                   (the (findIdx (headerOf text) [''highcost'', ''high''])) rowNum line)
           (zip [1 ..< length (normaliseLines text)] (tl (normaliseLines text))))"
    by (simp add: parseRisksCsv_def Let_def)
  then show ?thesis
    unfolding riskDataLines_def by (simp only: map_filter_rows [OF len])
qed

lemma set_map_filter_conv:
  "set (List.map_filter f xs) = {y. \<exists>x \<in> set xs. f x = Some y}"
  by (induction xs) (auto split: option.splits)

lemma parseRisksCsv_rows:
  assumes "r \<in> set (fst (parseRisksCsv text))"
  shows "\<exists>n t p l m h rowNum line ws. riskRow n t p l m h rowNum line = (Some r, ws)"
proof -
  from assms obtain rowNum line where
    "fst (riskRow (the (findIdx (headerOf text) [''name'', ''risk'']))
           (findIdx (headerOf text) [''risktype'', ''type''])
           (the (findIdx (headerOf text) [''probability'', ''p'']))
           (the (findIdx (headerOf text) [''lowcost'', ''low'']))
           (the (findIdx (headerOf text) [''mostlikelycost'', ''mostlikely'', ''mode'']))
           (the (findIdx (headerOf text) [''highcost'', ''high''])) rowNum line) = Some r"
    by (auto simp add: parseRisksCsv_def Let_def set_map_filter_conv split: if_splits)
  then show ?thesis
    by (metis prod.collapse)
qed

lemma riskRow_parsedOk:
  assumes "riskRow n t p l m h rowNum line = (Some r, ws)"
  shows "parsedOk r"
proof -
  from assms have "fst (riskRow n t p l m h rowNum line) = Some r" by simp
  with riskRow_outcome [of n line t p l m h rowNum] show ?thesis
    by (auto simp add: parsedOk_def)
qed

lemma parseRisksCsv_parsedOk: "list_all parsedOk (fst (parseRisksCsv text))"
  unfolding list_all_iff
proof
  fix r
  assume "r \<in> set (fst (parseRisksCsv text))"
  from parseRisksCsv_rows [OF this] show "parsedOk r"
    using riskRow_parsedOk by blast
qed

lemma importedRisks_nth:
  "k < length parsed \<Longrightarrow> importedRisks parsed ! k = riskOfParsed k (parsed ! k)"
  by (simp add: importedRisks_def)

lemma step_risk_import:
  "fst (parseRisksCsv text) \<noteq> [] \<Longrightarrow>
     risks (step s (RisksCsvSelected text)) = importedRisks (fst (parseRisksCsv text))"
  by (simp add: Let_def resetResults_def)

subsection \<open>What a session of the form keeps true of the numeric sources\<close>





lemma orZero_finite: "isFinite n \<Longrightarrow> isFinite (orZero n)"
  by (simp add: orZero_def)



lemma list_all_filter_pres: "list_all P xs \<Longrightarrow> list_all P (filter Q xs)"
  by (induction xs) simp_all



















subsection \<open>Numeric fields of the payload\<close>









subsection \<open>Inherent risks\<close>

lemma toLowerCase_length: "length (toLowerCase s) = length s"
  by (simp add: toLowerCase_def)

lemma contingent_not_inherent: "toLowerCase ''contingent'' \<noteq> ''inherent''"
proof
  assume "toLowerCase ''contingent'' = ''inherent''"
  then have "length (toLowerCase ''contingent'') = length ''inherent''" by (rule arg_cong)
  then show False by (simp add: toLowerCase_length)
qed

lemma isInherent_iff: "isInherent r \<longleftrightarrow> toLowerCase (riskType r) = ''inherent''"
proof (cases "riskType r = []")
  case True
  then have "toLowerCase (riskType r) = []" by (simp add: toLowerCase_def)
  with True contingent_not_inherent show ?thesis by (simp add: isInherent_def)
next
  case False
  then show ?thesis by (simp add: isInherent_def)
qed

lemma makeSequentialId_inj_on: "inj_on (makeSequentialId pre) A"
  by (rule inj_onI) (rule makeSequentialId_inj)

lemma sequential_ids_distinct: "distinct (map (makeSequentialId pre) [a ..< b])"
  by (simp add: distinct_map makeSequentialId_inj_on)

lemma distinct_map_eq:
  assumes "distinct (map f xs)" and "x \<in> set xs" and "y \<in> set xs" and "f x = f y"
  shows "x = y"
proof -
  from assms(1) have "inj_on f (set xs)" by (simp add: distinct_map)
  with assms(2,3,4) show ?thesis by (auto simp add: inj_on_def)
qed

lemma patchRisk_id: "q_id patch = None \<Longrightarrow> risk_id (patchRisk patch x) = risk_id x"
  by (simp add: patchRisk_def mergeRisk_def orElse_def Let_def split: option.splits)

lemma updateRisks_ids:
  "q_id patch = None \<Longrightarrow> map risk_id (updateRisks i patch xs) = map risk_id xs"
  by (induction xs) (simp_all add: updateRisks_def patchRisk_id)

lemma patchRisk_inherent:
  assumes "riskFormPatch x patch" and "isInherent x \<Longrightarrow> costsZero x"
    and "isInherent (patchRisk patch x)"
  shows "costsZero (patchRisk patch x)"
proof (cases "q_riskType patch")
  case None
  then have t: "riskType (patchRisk patch x) = riskType x"
    by (simp add: patchRisk_def mergeRisk_def orElse_def Let_def)
  with assms(3) have inh: "isInherent x" by (simp add: isInherent_iff)
  with assms(1) have "q_lowCost patch = None" "q_mostLikelyCost patch = None"
    "q_highCost patch = None"
    by (simp_all add: riskFormPatch_def)
  with None assms(2) [OF inh] show ?thesis
    by (simp add: patchRisk_def mergeRisk_def orElse_def Let_def costsZero_def)
next
  case (Some t)
  show ?thesis
  proof (cases "toLowerCase t = ''inherent''")
    case True
    with Some show ?thesis by (simp add: patchRisk_def Let_def costsZero_def)
  next
    case False
    with Some have "riskType (patchRisk patch x) = t"
      by (simp add: patchRisk_def mergeRisk_def orElse_def Let_def)
    with assms(3) have "toLowerCase t = ''inherent''" by (simp add: isInherent_iff)
    with False show ?thesis by simp
  qed
qed

lemma importedRisks_ids:
  "map risk_id (importedRisks ps) = map (makeSequentialId ''r'') [1 ..< length ps + 1]"
  by (rule nth_equalityI) (simp_all add: importedRisks_def riskOfParsed_def del: upt_Suc)

lemma riskOfParsed_inherent: "parsedOk p \<Longrightarrow> inherentFree (riskOfParsed idx p)"
  using contingent_not_inherent
  by (auto simp add: parsedOk_def inherentFree_def isInherent_iff riskOfParsed_def costsZero_def)

lemma importedRisks_inherent:
  "list_all parsedOk ps \<Longrightarrow> list_all inherentFree (importedRisks ps)"
  by (auto simp add: importedRisks_def list_all_iff riskOfParsed_inherent dest: set_zip_rightD)

lemma ids_listed: "map risk_id xs = ys \<Longrightarrow> list_all (\<lambda>r. risk_id r \<in> set ys) xs"
  by (auto simp add: list_all_iff)

lemma risksOk_same:
  "risks s' = risks s \<Longrightarrow> riskCounter s' = riskCounter s \<Longrightarrow> risksOk s \<Longrightarrow> risksOk s'"
  by (simp add: risksOk_def)

lemma risksOk_initial: "risksOk initialState"
proof -
  have "map (makeSequentialId ''r'') [1 ..< 2 + 1] = [''r01'', ''r02'']" by code_simp
  moreover have "\<not> isInherent x" if "riskType x = ''contingent''" for x
    using that contingent_not_inherent by (simp add: isInherent_iff)
  ultimately show ?thesis
    by (simp add: risksOk_def inherentFree_def initialState_def)
qed

lemma risksOk_add:
  assumes "risksOk s"
  shows "risksOk (step s AddRiskRow)"
proof -
  let ?new = "\<lparr> risk_id = makeSequentialId ''r'' (riskCounter s + 1), risk_name = [],
                 riskType = ''contingent'', probability = JNum (Fin 0),
                 lowCost = JNum (Fin 0), risk_mostLikelyCost = JNum (Fin 0),
                 highCost = JNum (Fin 0) \<rparr>"
  have r: "risks (step s AddRiskRow) = risks s @ [?new]"
    and c: "riskCounter (step s AddRiskRow) = riskCounter s + 1"
    by (simp_all add: resetResults_def)
  from assms have d: "distinct (map risk_id (risks s))"
    and m: "\<forall>x \<in> set (risks s).
              risk_id x \<in> set (map (makeSequentialId ''r'') [1 ..< riskCounter s + 1])"
    and f: "\<forall>x \<in> set (risks s). inherentFree x"
    unfolding risksOk_def list_all_iff by blast+
  have fresh: "makeSequentialId ''r'' (riskCounter s + 1) \<notin> set (map risk_id (risks s))"
  proof
    assume "makeSequentialId ''r'' (riskCounter s + 1) \<in> set (map risk_id (risks s))"
    with m have "makeSequentialId ''r'' (riskCounter s + 1)
                   \<in> set (map (makeSequentialId ''r'') [1 ..< riskCounter s + 1])"
      by auto
    then obtain k where k: "k \<in> set [1 ..< riskCounter s + 1]"
      and "makeSequentialId ''r'' (riskCounter s + 1) = makeSequentialId ''r'' k"
      by auto
    then have "riskCounter s + 1 = k" by (simp only: makeSequentialId_inj)
    with k show False by simp
  qed
  have n: "inherentFree ?new"
    using contingent_not_inherent by (simp add: inherentFree_def isInherent_iff)
  have w: "set (map (makeSequentialId ''r'') [1 ..< riskCounter s + 1])
            \<subseteq> set (map (makeSequentialId ''r'') [1 ..< riskCounter s + 1 + 1])"
    by auto
  have last: "makeSequentialId ''r'' (riskCounter s + 1)
                \<in> set (map (makeSequentialId ''r'') [1 ..< riskCounter s + 1 + 1])"
    by simp
  have c1: "distinct (map risk_id (risks s @ [?new]))"
    using d fresh by simp
  have c2: "\<forall>x \<in> set (risks s @ [?new]).
          risk_id x \<in> set (map (makeSequentialId ''r'') [1 ..< riskCounter s + 1 + 1])"
  proof
    fix x
    assume "x \<in> set (risks s @ [?new])"
    then have "x \<in> set (risks s) \<or> x = ?new" by auto
    then show "risk_id x \<in> set (map (makeSequentialId ''r'') [1 ..< riskCounter s + 1 + 1])"
    proof
      assume "x \<in> set (risks s)"
      with m w show ?thesis by blast
    next
      assume "x = ?new"
      with last show ?thesis by simp
    qed
  qed
  have c3: "\<forall>x \<in> set (risks s @ [?new]). inherentFree x"
    using f n by simp
  from c1 c2 c3 show ?thesis
    unfolding risksOk_def r c list_all_iff by blast
qed

lemma risksOk_delete:
  assumes "risksOk s"
  shows "risksOk (step s (DeleteRiskRow i))"
proof -
  have r: "risks (step s (DeleteRiskRow i)) = filter (\<lambda>x. risk_id x \<noteq> i) (risks s)"
    and c: "riskCounter (step s (DeleteRiskRow i)) = riskCounter s"
    by (simp_all add: resetResults_def)
  from assms show ?thesis
    unfolding risksOk_def r c by (simp add: distinct_map_filter list_all_filter_pres)
qed

lemma risksOk_update:
  assumes "risksOk s" and "formEvent s (UpdateRiskRow i patch)"
  shows "risksOk (step s (UpdateRiskRow i patch))"
proof -
  have r: "risks (step s (UpdateRiskRow i patch)) = updateRisks i patch (risks s)"
    and c: "riskCounter (step s (UpdateRiskRow i patch)) = riskCounter s"
    by (simp_all add: resetResults_def)
  from assms(2) obtain row where row: "row \<in> set (risks s)" "risk_id row = i"
    "riskFormPatch row patch"
    by (auto simp add: list_ex_iff)
  then have q: "q_id patch = None" by (simp add: riskFormPatch_def)
  from assms(1) have d: "distinct (map risk_id (risks s))"
    and m: "list_all (\<lambda>r. risk_id r \<in> set (map (makeSequentialId ''r'') [1 ..< riskCounter s + 1]))
              (risks s)"
    and f: "\<forall>x \<in> set (risks s). inherentFree x"
    by (simp_all add: risksOk_def list_all_iff)
  have ids: "map risk_id (updateRisks i patch (risks s)) = map risk_id (risks s)"
    using q by (rule updateRisks_ids)
  have m': "list_all (\<lambda>r. risk_id r \<in> set (map (makeSequentialId ''r'') [1 ..< riskCounter s + 1]))
              (updateRisks i patch (risks s))"
  proof -
    from m have "set (map risk_id (risks s))
                   \<subseteq> set (map (makeSequentialId ''r'') [1 ..< riskCounter s + 1])"
      by (auto simp add: list_all_iff)
    then have "set (map risk_id (updateRisks i patch (risks s)))
                   \<subseteq> set (map (makeSequentialId ''r'') [1 ..< riskCounter s + 1])"
      by (simp only: ids)
    then show ?thesis by (auto simp add: list_all_iff)
  qed
  have f': "list_all inherentFree (updateRisks i patch (risks s))"
    unfolding updateRisks_def list_all_iff
  proof
    fix y
    assume "y \<in> set (map (\<lambda>x. if risk_id x \<noteq> i then x else patchRisk patch x) (risks s))"
    then obtain x where x: "x \<in> set (risks s)"
      and y: "y = (if risk_id x \<noteq> i then x else patchRisk patch x)"
      by auto
    show "inherentFree y"
    proof (cases "risk_id x \<noteq> i")
      case True
      with x y f show ?thesis by simp
    next
      case False
      with row have "risk_id x = risk_id row" by simp
      with d x row(1) have "x = row" by (rule distinct_map_eq)
      with row(3) have p: "riskFormPatch x patch" by simp
      from f x have "inherentFree x" by simp
      then have "isInherent x \<Longrightarrow> costsZero x" by (simp add: inherentFree_def)
      with p have "isInherent (patchRisk patch x) \<Longrightarrow> costsZero (patchRisk patch x)"
        by (rule patchRisk_inherent)
      with False y show ?thesis by (simp add: inherentFree_def)
    qed
  qed
  from d m' f' show ?thesis
    unfolding risksOk_def r c by (simp only: ids simp_thms)
qed

lemma risksOk_import: "risksOk s \<Longrightarrow> risksOk (step s (RisksCsvSelected text))"
proof (cases "fst (parseRisksCsv text) = []")
  case True
  assume a: "risksOk s"
  from True have "risks (step s (RisksCsvSelected text)) = risks s"
    and "riskCounter (step s (RisksCsvSelected text)) = riskCounter s"
    by (simp_all add: Let_def)
  from this a show ?thesis by (rule risksOk_same)
next
  case False
  let ?ps = "fst (parseRisksCsv text)"
  from False have r: "risks (step s (RisksCsvSelected text)) = importedRisks ?ps"
    and c: "riskCounter (step s (RisksCsvSelected text)) = length ?ps"
    by (simp_all add: Let_def resetResults_def)
  have c1: "distinct (map risk_id (importedRisks ?ps))"
    by (simp only: importedRisks_ids sequential_ids_distinct)
  have c2: "list_all (\<lambda>r. risk_id r \<in> set (map (makeSequentialId ''r'') [1 ..< length ?ps + 1]))
              (importedRisks ?ps)"
    by (rule ids_listed) (rule importedRisks_ids)
  have c3: "list_all inherentFree (importedRisks ?ps)"
    using parseRisksCsv_parsedOk by (rule importedRisks_inherent)
  from c1 c2 c3 show ?thesis
    unfolding risksOk_def r c by blast
qed

lemma risksOk_step:
  assumes "risksOk s" and "formEvent s e"
  shows "risksOk (step s e)"
proof (cases e)
  case (FactorsLoaded x1)
  with assms(1) show ?thesis by (simp add: risksOk_def)
next
  case (SetIterations x2)
  with assms(1) show ?thesis by (simp add: risksOk_def)
next
  case (SetSeed x3)
  with assms(1) show ?thesis by (simp add: risksOk_def)
next
  case CorrelationNone
  with assms(1) show ?thesis by (simp add: risksOk_def resetResults_def)
next
  case CorrelationStandard
  with assms(1) show ?thesis by (simp add: risksOk_def resetResults_def)
next
  case AddCbsRow
  with assms(1) show ?thesis by (simp add: risksOk_def resetResults_def)
next
  case (DeleteCbsRow x7)
  with assms(1) show ?thesis by (simp add: risksOk_def resetResults_def)
next
  case (UpdateCbsRow x81 x82)
  with assms(1) show ?thesis by (simp add: risksOk_def resetResults_def)
next
  case AddRiskRow
  with assms(1) show ?thesis by (simp only: risksOk_add)
next
  case (DeleteRiskRow x10)
  with assms(1) show ?thesis by (simp only: risksOk_delete)
next
  case (UpdateRiskRow i patch)
  with assms show ?thesis by (simp only: risksOk_update)
next
  case (CbsCsvSelected x12)
  with assms(1) show ?thesis by (simp add: risksOk_def resetResults_def Let_def)
next
  case (RisksCsvSelected x13)
  with assms(1) show ?thesis by (simp only: risksOk_import)
next
  case RunSimulation
  with assms(1) show ?thesis by (simp add: risksOk_def resetResults_def)
next
  case (SimulationDone x15)
  with assms(1) show ?thesis by (simp add: risksOk_def)
next
  case (SimulationFailed x16)
  with assms(1) show ?thesis by (simp add: risksOk_def)
next
  case (CommentaryDone x171 x172)
  with assms(1) show ?thesis by (simp add: risksOk_def)
next
  case (CommentaryFailed x18)
  with assms(1) show ?thesis by (simp add: risksOk_def)
qed

lemma risksOk_run: "formRun s evs \<Longrightarrow> risksOk s \<Longrightarrow> risksOk (run s evs)"
  by (induction evs arbitrary: s) (simp_all add: run_def risksOk_step)

text \<open>
  C8. In every state a session of the form reaches from the initial state, every risk whose
  risk type is "inherent", in any letter case, has the three costs 0. The risk imported from
  the k-th data line with a name, the type cell of the line reading "inherent", has the name of
  the line, the risk type "inherent" and the three costs 0, whatever the cost cells of the line
  hold. An update of a risk whose patch names the risk type "inherent", in any letter case,
  leaves the three costs of that risk 0.
\<close>

theorem inherent_risks_cost_nothing:
  "(formRun initialState evs \<longrightarrow>
      (\<forall>r \<in> set (risks (run initialState evs)).
         toLowerCase (riskType r) = ''inherent'' \<longrightarrow>
           lowCost r = JNum (Fin 0) \<and> risk_mostLikelyCost r = JNum (Fin 0)
           \<and> highCost r = JNum (Fin 0)))
   \<and> (normaliseLines csv \<noteq> []
      \<and> missingHeaders (findIdx (headerOf csv) [''name'', ''risk''])
          (findIdx (headerOf csv) [''probability'', ''p''])
          (findIdx (headerOf csv) [''lowcost'', ''low''])
          (findIdx (headerOf csv) [''mostlikelycost'', ''mostlikely'', ''mode''])
          (findIdx (headerOf csv) [''highcost'', ''high'']) = []
      \<and> findIdx (headerOf csv) [''risktype'', ''type''] = Some c
      \<and> k < length (riskDataLines csv)
      \<and> toLowerCase (trim (cellOrEmpty (splitRow (riskDataLines csv ! k)) c)) = ''inherent'' \<longrightarrow>
        k < length (risks (step s (RisksCsvSelected csv)))
      \<and> risk_name (risks (step s (RisksCsvSelected csv)) ! k)
          = lineName (the (findIdx (headerOf csv) [''name'', ''risk''])) (riskDataLines csv ! k)
      \<and> riskType (risks (step s (RisksCsvSelected csv)) ! k) = ''inherent''
      \<and> lowCost (risks (step s (RisksCsvSelected csv)) ! k) = JNum (Fin 0)
      \<and> risk_mostLikelyCost (risks (step s (RisksCsvSelected csv)) ! k) = JNum (Fin 0)
      \<and> highCost (risks (step s (RisksCsvSelected csv)) ! k) = JNum (Fin 0))
   \<and> (j < length (risks s) \<and> risk_id (risks s ! j) = i \<and> q_riskType patch = Some t
      \<and> toLowerCase t = ''inherent'' \<longrightarrow>
        lowCost (risks (step s (UpdateRiskRow i patch)) ! j) = JNum (Fin 0)
      \<and> risk_mostLikelyCost (risks (step s (UpdateRiskRow i patch)) ! j) = JNum (Fin 0)
      \<and> highCost (risks (step s (UpdateRiskRow i patch)) ! j) = JNum (Fin 0))"
proof (intro conjI impI ballI)
  fix r
  assume fr: "formRun initialState evs" and r: "r \<in> set (risks (run initialState evs))"
    and t: "toLowerCase (riskType r) = ''inherent''"
  from fr risksOk_initial have "risksOk (run initialState evs)" by (rule risksOk_run)
  then have "list_all inherentFree (risks (run initialState evs))"
    by (simp add: risksOk_def)
  with r have "inherentFree r" by (simp add: list_all_iff)
  moreover from t have "isInherent r" by (simp add: isInherent_iff)
  ultimately have "costsZero r" by (simp add: inherentFree_def)
  then show "lowCost r = JNum (Fin 0)" and "risk_mostLikelyCost r = JNum (Fin 0)"
    and "highCost r = JNum (Fin 0)"
    by (simp_all add: costsZero_def)
next
  let ?n = "the (findIdx (headerOf csv) [''name'', ''risk''])"
  let ?row = "\<lambda>line. riskRow ?n (findIdx (headerOf csv) [''risktype'', ''type''])
                   (the (findIdx (headerOf csv) [''probability'', ''p'']))
                   (the (findIdx (headerOf csv) [''lowcost'', ''low'']))
                   (the (findIdx (headerOf csv) [''mostlikelycost'', ''mostlikely'', ''mode'']))
                   (the (findIdx (headerOf csv) [''highcost'', ''high''])) 0 line"
  let ?line = "riskDataLines csv ! k"
  assume a: "normaliseLines csv \<noteq> []
      \<and> missingHeaders (findIdx (headerOf csv) [''name'', ''risk''])
          (findIdx (headerOf csv) [''probability'', ''p''])
          (findIdx (headerOf csv) [''lowcost'', ''low''])
          (findIdx (headerOf csv) [''mostlikelycost'', ''mostlikely'', ''mode''])
          (findIdx (headerOf csv) [''highcost'', ''high'']) = []
      \<and> findIdx (headerOf csv) [''risktype'', ''type''] = Some c
      \<and> k < length (riskDataLines csv)
      \<and> toLowerCase (trim (cellOrEmpty (splitRow (riskDataLines csv ! k)) c)) = ''inherent''"
  then have a1: "normaliseLines csv \<noteq> []" by (rule conjunct1)
  from a have a2: "missingHeaders (findIdx (headerOf csv) [''name'', ''risk''])
          (findIdx (headerOf csv) [''probability'', ''p''])
          (findIdx (headerOf csv) [''lowcost'', ''low''])
          (findIdx (headerOf csv) [''mostlikelycost'', ''mostlikely'', ''mode''])
          (findIdx (headerOf csv) [''highcost'', ''high'']) = []"
    by blast
  have parsed: "fst (parseRisksCsv csv) = map (\<lambda>line. the (fst (?row line))) (riskDataLines csv)"
    using a1 a2 by (rule parseRisksCsv_kept)
  from a have k: "k < length (riskDataLines csv)" by simp
  with parsed have k': "k < length (fst (parseRisksCsv csv))" by simp
  then have "fst (parseRisksCsv csv) \<noteq> []" by auto
  then have imp: "risks (step s (RisksCsvSelected csv)) = importedRisks (fst (parseRisksCsv csv))"
    by (rule step_risk_import)
  from k have "?line \<in> set (riskDataLines csv)" by simp
  then have name: "lineName ?n ?line \<noteq> []" by (simp add: riskDataLines_def)
  from a have cell: "(case findIdx (headerOf csv) [''risktype'', ''type''] of None \<Rightarrow> []
                      | Some i \<Rightarrow> toLowerCase (trim (cellOrEmpty (splitRow ?line) i)))
                     = ''inherent''"
    by simp
  from riskRow_outcome [of ?n ?line "findIdx (headerOf csv) [''risktype'', ''type'']"
      "the (findIdx (headerOf csv) [''probability'', ''p''])"
      "the (findIdx (headerOf csv) [''lowcost'', ''low''])"
      "the (findIdx (headerOf csv) [''mostlikelycost'', ''mostlikely'', ''mode''])"
      "the (findIdx (headerOf csv) [''highcost'', ''high''])" 0] name cell
  obtain prob where "fst (?row ?line)
                = Some \<lparr> pr_name = lineName ?n ?line, pr_riskType = ''inherent'',
                         pr_probability = prob, pr_lowCost = Fin 0, pr_mostLikelyCost = Fin 0,
                         pr_highCost = Fin 0 \<rparr>"
    by blast
  with parsed k have row: "fst (parseRisksCsv csv) ! k
                = \<lparr> pr_name = lineName ?n ?line, pr_riskType = ''inherent'',
                         pr_probability = prob, pr_lowCost = Fin 0, pr_mostLikelyCost = Fin 0,
                         pr_highCost = Fin 0 \<rparr>"
    by simp
  from k' show "k < length (risks (step s (RisksCsvSelected csv)))"
    unfolding imp by (simp add: importedRisks_def)
  from k' row show "risk_name (risks (step s (RisksCsvSelected csv)) ! k) = lineName ?n ?line"
    and "riskType (risks (step s (RisksCsvSelected csv)) ! k) = ''inherent''"
    and "lowCost (risks (step s (RisksCsvSelected csv)) ! k) = JNum (Fin 0)"
    and "risk_mostLikelyCost (risks (step s (RisksCsvSelected csv)) ! k) = JNum (Fin 0)"
    and "highCost (risks (step s (RisksCsvSelected csv)) ! k) = JNum (Fin 0)"
    unfolding imp by (simp_all add: importedRisks_nth riskOfParsed_def)
next
  assume b: "j < length (risks s) \<and> risk_id (risks s ! j) = i \<and> q_riskType patch = Some t
      \<and> toLowerCase t = ''inherent''"
  then have eq: "risks (step s (UpdateRiskRow i patch)) ! j = patchRisk patch (risks s ! j)"
    by (simp add: resetResults_def updateRisks_def)
  from b show "lowCost (risks (step s (UpdateRiskRow i patch)) ! j) = JNum (Fin 0)"
    and "risk_mostLikelyCost (risks (step s (UpdateRiskRow i patch)) ! j) = JNum (Fin 0)"
    and "highCost (risks (step s (UpdateRiskRow i patch)) ! j) = JNum (Fin 0)"
    unfolding eq by (simp_all add: patchRisk_def Let_def)
qed

theorem inherent_risks_cost_nothing_witness:
  "lowCost (risks (run initialState inherentSession) ! 0) = JNum (Fin 0)
   \<and> risk_name (risks (step initialState (RisksCsvSelected inherentCsv)) ! 0) = ''Weather''
   \<and> riskType (risks (step initialState (RisksCsvSelected inherentCsv)) ! 0) = ''inherent''
   \<and> risk_mostLikelyCost (risks (step initialState (RisksCsvSelected inherentCsv)) ! 0)
       = JNum (Fin 0)
   \<and> highCost (risks (step initialState
        (UpdateRiskRow ''r01'' (emptyRiskPatch \<lparr> q_riskType := Some ''inherent'' \<rparr>))) ! 0)
       = JNum (Fin 0)"
proof -
  have a1: "formRun initialState inherentSession" by code_simp
  have a2: "risks (run initialState inherentSession) ! 0
              \<in> set (risks (run initialState inherentSession))"
    by code_simp
  have a3: "toLowerCase (riskType (risks (run initialState inherentSession) ! 0)) = ''inherent''"
    by code_simp
  have b1: "normaliseLines inherentCsv \<noteq> []" by code_simp
  have b2: "missingHeaders (findIdx (headerOf inherentCsv) [''name'', ''risk''])
          (findIdx (headerOf inherentCsv) [''probability'', ''p''])
          (findIdx (headerOf inherentCsv) [''lowcost'', ''low''])
          (findIdx (headerOf inherentCsv) [''mostlikelycost'', ''mostlikely'', ''mode''])
          (findIdx (headerOf inherentCsv) [''highcost'', ''high'']) = []"
    by code_simp
  have b3: "findIdx (headerOf inherentCsv) [''risktype'', ''type''] = Some 1" by code_simp
  have b4: "0 < length (riskDataLines inherentCsv)" by code_simp
  have b5: "toLowerCase (trim (cellOrEmpty (splitRow (riskDataLines inherentCsv ! 0)) 1))
              = ''inherent''"
    by code_simp
  have b6: "lineName (the (findIdx (headerOf inherentCsv) [''name'', ''risk'']))
              (riskDataLines inherentCsv ! 0) = ''Weather''"
    by code_simp
  have c: "0 < length (risks initialState) \<and> risk_id (risks initialState ! 0) = ''r01''
           \<and> q_riskType (emptyRiskPatch \<lparr> q_riskType := Some ''inherent'' \<rparr>) = Some ''inherent''
           \<and> toLowerCase ''inherent'' = ''inherent''"
    by code_simp
  from inherent_risks_cost_nothing
         [of inherentSession inherentCsv 1 0 initialState 0 "''r01''"
             "emptyRiskPatch \<lparr> q_riskType := Some ''inherent'' \<rparr>" "''inherent''"]
       a1 a2 a3 b1 b2 b3 b4 b5 b6 c
  show ?thesis by metis
qed

end
